theory Spec2Isabelle
  imports Main "HOL-Library.Sublist"
begin

section \<open>Download outcomes and the progress ledger\<close>

text \<open>
  The embedding follows \<^verbatim>\<open>src/sec-dw-downloader.js\<close>. A JavaScript string is a
  \<^typ>\<open>string\<close>; one \<^typ>\<open>char\<close> stands for one code unit of the source string.

  \<^verbatim>\<open>downloadWarrant\<close> returns one of two object shapes, told apart by the
  \<^verbatim>\<open>success\<close> flag:
  \<^verbatim>\<open>{ success: false, transID, reason }\<close> and
  \<^verbatim>\<open>{ success: true, transID, symbol, issuer, filename, fileDate, fileSize }\<close>.
\<close>

datatype outcome =
    Failure string string
  | Success string string string string "string option" nat

fun success :: "outcome \<Rightarrow> bool" where
  "success (Failure t r) = False"
| "success (Success t sy iss fn fd sz) = True"

fun transID :: "outcome \<Rightarrow> string" where
  "transID (Failure t r) = t"
| "transID (Success t sy iss fn fd sz) = t"

text \<open>
  \<^verbatim>\<open>ProgressTracker.data\<close>: the three arrays of the progress file. The completed and
  failed arrays hold outcome objects, the pending array holds item IDs.
\<close>

record progress_data =
  completed :: "outcome list"
  failed :: "outcome list"
  pending :: "string list"

definition empty_progress :: progress_data where
  "empty_progress = \<lparr>completed = [], failed = [], pending = []\<rparr>"

text \<open>\<^verbatim>\<open>isCompleted(transID)\<close>: \<^verbatim>\<open>this.data.completed.some(item => item.transID === transID)\<close>.\<close>

definition isCompleted :: "progress_data \<Rightarrow> string \<Rightarrow> bool" where
  "isCompleted d t = list_ex (\<lambda>item. transID item = t) (completed d)"

text \<open>
  \<^verbatim>\<open>markCompleted(result)\<close> and \<^verbatim>\<open>markFailed(result)\<close>: push the result, filter the
  ID out of \<^verbatim>\<open>pending\<close>. (The \<^verbatim>\<open>save()\<close> that follows each of them is modelled
  with the scheduler, where the file system is at hand.)
\<close>

definition markCompleted :: "progress_data \<Rightarrow> outcome \<Rightarrow> progress_data" where
  "markCompleted d r =
     d\<lparr>completed := completed d @ [r],
       pending := filter (\<lambda>i. i \<noteq> transID r) (pending d)\<rparr>"

definition markFailed :: "progress_data \<Rightarrow> outcome \<Rightarrow> progress_data" where
  "markFailed d r =
     d\<lparr>failed := failed d @ [r],
       pending := filter (\<lambda>i. i \<noteq> transID r) (pending d)\<rparr>"

text \<open>\<^verbatim>\<open>setPending(transIDs)\<close>: \<^verbatim>\<open>transIDs.filter(id => !this.isCompleted(id))\<close>.\<close>

definition setPending :: "progress_data \<Rightarrow> string list \<Rightarrow> progress_data" where
  "setPending d transIDs = d\<lparr>pending := filter (\<lambda>i. \<not> isCompleted d i) transIDs\<rparr>"

definition getPending :: "progress_data \<Rightarrow> string list" where
  "getPending d = pending d"

text \<open>\<^verbatim>\<open>getStats()\<close>: the three lengths.\<close>

definition getStats :: "progress_data \<Rightarrow> nat \<times> nat \<times> nat" where
  "getStats d = (length (completed d), length (failed d), length (pending d))"

text \<open>The IDs recorded in the completed and in the failed list.\<close>

definition completed_ids :: "progress_data \<Rightarrow> string set" where
  "completed_ids d = set (map transID (completed d))"

definition failed_ids :: "progress_data \<Rightarrow> string set" where
  "failed_ids d = set (map transID (failed d))"

text \<open>
  Sequences of ledger calls. A ledger state is reached from the empty ledger by a list
  of calls, applied from left to right.
\<close>

datatype ledger_call =
    SetPending "string list"
  | MarkCompleted outcome
  | MarkFailed outcome

fun apply_call :: "progress_data \<Rightarrow> ledger_call \<Rightarrow> progress_data" where
  "apply_call d (SetPending ids) = setPending d ids"
| "apply_call d (MarkCompleted r) = markCompleted d r"
| "apply_call d (MarkFailed r) = markFailed d r"

definition apply_calls :: "progress_data \<Rightarrow> ledger_call list \<Rightarrow> progress_data" where
  "apply_calls d cs = foldl apply_call d cs"

text \<open>
  A call is \<^emph>\<open>unmixed\<close> in a state when it does not mark an ID completed that the
  failed list holds, nor mark an ID failed that the completed list holds; a sequence of
  calls is unmixed when each call is, in the state it is applied to.
\<close>

fun unmixed_call :: "progress_data \<Rightarrow> ledger_call \<Rightarrow> bool" where
  "unmixed_call d (SetPending ids) = True"
| "unmixed_call d (MarkCompleted r) = (\<not> list_ex (\<lambda>item. transID item = transID r) (failed d))"
| "unmixed_call d (MarkFailed r) = (\<not> list_ex (\<lambda>item. transID item = transID r) (completed d))"

fun unmixed :: "progress_data \<Rightarrow> ledger_call list \<Rightarrow> bool" where
  "unmixed d [] = True"
| "unmixed d (c # cs) = (unmixed_call d c \<and> unmixed (apply_call d c) cs)"

section \<open>Configuration, environment and events\<close>

text \<open>
  \<^verbatim>\<open>CONFIG\<close>, as the pipeline reads it. The date range, the folders, the path of
  the progress file and the speed setting are fixed before the pipeline starts; the
  request timeout belongs to the HTTP client.
\<close>

record config =
  downloadDir :: string
  cacheDir :: string
  progressFile :: string
  concurrentDownloads :: nat
  retryAttempts :: nat
  retryDelay :: nat
  requestDelay :: nat
  dateFrom :: string
  dateTo :: string

text \<open>A thrown value; every error the pipeline handles carries a message.\<close>

datatype error = Error string | TypeError string

fun message :: "error \<Rightarrow> string" where
  "message (Error m) = m"
| "message (TypeError m) = m"

text \<open>
  What the code reads of an HTTP response: the body and the
  \<^verbatim>\<open>content-disposition\<close> header (absent: \<open>None\<close>). The request options the code
  sets: the \<^verbatim>\<open>Referer\<close> header and \<^verbatim>\<open>responseType: 'arraybuffer'\<close>.
\<close>

record response =
  data :: string
  content_disposition :: "string option"

record options =
  referer :: "string option"
  arraybuffer :: bool

text \<open>What \<^verbatim>\<open>extractTermsURL\<close> returns when it finds the terms link.\<close>

record terms_info =
  url :: string
  issuer :: string
  symbol :: string
  fileDate :: "string option"

text \<open>
  The environment: the HTTP client, the file system and the HTML library are not code
  of the repository. Their behaviour is a parameter, over a state \<open>'w\<close> of the outside
  world; each operation returns its result, or the error it throws, and the next state.
  \<^verbatim>\<open>extractTermsURL\<close> and the row scan of \<^verbatim>\<open>extractTransIDs\<close> are queries of the HTML
  library on a page and are taken with it. \<^verbatim>\<open>JSON.stringify\<close> and \<^verbatim>\<open>JSON.parse\<close> are
  taken on the values the tracker writes: the text of a ledger state, and the ledger state
  a text stands for, \<open>None\<close> when \<^verbatim>\<open>JSON.parse\<close> throws.
\<close>

record 'w env =
  httpGet :: "string \<Rightarrow> options \<Rightarrow> 'w \<Rightarrow> (error + response) \<times> 'w"
  existsSync :: "string \<Rightarrow> 'w \<Rightarrow> bool \<times> 'w"
  readFileSync :: "string \<Rightarrow> 'w \<Rightarrow> (error + string) \<times> 'w"
  writeFileSync :: "string \<Rightarrow> string \<Rightarrow> 'w \<Rightarrow> (error + unit) \<times> 'w"
  extractTermsURL :: "string \<Rightarrow> error + terms_info option"
  listingTransIDs :: "string \<Rightarrow> error + string list"
  stringifyLedger :: "progress_data \<Rightarrow> string"
  parseLedger :: "string \<Rightarrow> progress_data option"

text \<open>
  What an observer sees of a run: pauses, HTTP requests and the arrival of their
  answers, worker invocations and settlements, and the contents written to the progress
  file. Where a function is followed from its call to its return (\<^verbatim>\<open>fetchWithRetry\<close>,
  \<^verbatim>\<open>downloadWarrant\<close> and \<^verbatim>\<open>extractTransIDs\<close> below), a request and its answer are the
  one event \<open>HttpGet\<close>.
\<close>

datatype event =
    Sleep nat
  | HttpGet string
  | Response string
  | WorkerInvoked string
  | WorkerSettled outcome
  | LedgerSaved progress_data

text \<open>The state a worker runs in: the outside world, the events so far, the progress bar.\<close>

record 'w wstate =
  world :: 'w
  log :: "event list"
  bar :: nat

section \<open>Transport: \<^verbatim>\<open>fetchWithRetry\<close>\<close>

text \<open>
  \<^verbatim>\<open>for (let attempt = 1; attempt <= retries; attempt++)\<close>: a response is returned at
  once; an error is rethrown when \<^verbatim>\<open>attempt === retries\<close>, and otherwise followed by
  \<^verbatim>\<open>sleep(CONFIG.retryDelay * attempt)\<close>. When the loop body never runs the function
  returns \<^verbatim>\<open>undefined\<close>, here \<open>Inr None\<close>.
\<close>

function fetchWithRetry_from ::
  "'w env \<Rightarrow> config \<Rightarrow> string \<Rightarrow> options \<Rightarrow> nat \<Rightarrow> nat \<Rightarrow> 'w wstate
     \<Rightarrow> (error + response option) \<times> 'w wstate" where
  "fetchWithRetry_from E C u opts retries attempt s =
     (if attempt \<le> retries then
        (case httpGet E u opts (world s) of
           (Inr r, w) \<Rightarrow> (Inr (Some r), s\<lparr>world := w, log := log s @ [HttpGet u]\<rparr>)
         | (Inl e, w) \<Rightarrow>
             if attempt = retries
             then (Inl e, s\<lparr>world := w, log := log s @ [HttpGet u]\<rparr>)
             else fetchWithRetry_from E C u opts retries (attempt + 1)
                    (s\<lparr>world := w,
                       log := log s @ [HttpGet u, Sleep (retryDelay C * attempt)]\<rparr>))
      else (Inr None, s))"
  by pat_completeness auto
termination
  by (relation "measure (\<lambda>(E, C, u, opts, retries, attempt, s). Suc retries - attempt)") auto

declare fetchWithRetry_from.simps [simp del]

definition fetchWithRetry ::
  "'w env \<Rightarrow> config \<Rightarrow> string \<Rightarrow> options \<Rightarrow> 'w wstate
     \<Rightarrow> (error + response option) \<times> 'w wstate" where
  "fetchWithRetry E C u opts s = fetchWithRetry_from E C u opts (retryAttempts C) 1 s"

text \<open>
  For stating the retry contract: the results of the first \<open>n\<close> successive calls of the
  HTTP client on a request, from a given state of the world, and the pause that
  precedes the \<open>n\<close>-th request of a log (\<open>None\<close> when no pause or no such request).
\<close>

fun successive_calls ::
  "'w env \<Rightarrow> string \<Rightarrow> options \<Rightarrow> nat \<Rightarrow> 'w \<Rightarrow> (error + response) list" where
  "successive_calls E u opts 0 w = []"
| "successive_calls E u opts (Suc n) w =
     (case httpGet E u opts w of (r, w') \<Rightarrow> r # successive_calls E u opts n w')"

fun pause_before :: "event list \<Rightarrow> nat \<Rightarrow> nat option \<Rightarrow> nat option" where
  "pause_before [] n last_pause = None"
| "pause_before (Sleep ms # evs) n last_pause = pause_before evs n (Some ms)"
| "pause_before (HttpGet u # evs) n last_pause =
     (if n = 1 then last_pause else pause_before evs (n - 1) None)"
| "pause_before (ev # evs) n last_pause = pause_before evs n None"

definition requests :: "event list \<Rightarrow> string list" where
  "requests evs = concat (map (\<lambda>ev. case ev of HttpGet u \<Rightarrow> [u] | _ \<Rightarrow> []) evs)"

definition pauses :: "event list \<Rightarrow> nat list" where
  "pauses evs = concat (map (\<lambda>ev. case ev of Sleep ms \<Rightarrow> [ms] | _ \<Rightarrow> []) evs)"

section \<open>Cache Store: \<^verbatim>\<open>CacheManager\<close>\<close>

text \<open>
  \<^verbatim>\<open>key.replace(/[^a-zA-Z0-9]/g, '_')\<close>: every code unit outside the three ranges
  becomes an underscore.
\<close>

definition alphanumeric :: "char \<Rightarrow> bool" where
  "alphanumeric c \<longleftrightarrow>
     c \<in> set (''abcdefghijklmnopqrstuvwxyz'' @ ''ABCDEFGHIJKLMNOPQRSTUVWXYZ'' @ ''0123456789'')"

definition sanitize :: "string \<Rightarrow> string" where
  "sanitize k = map (\<lambda>c. if alphanumeric c then c else CHR ''_'') k"

text \<open>
  \<^verbatim>\<open>path.join(dir, name)\<close>, without the normalisation of the result: paths are used
  as names of files only.
\<close>

definition path_join :: "string \<Rightarrow> string \<Rightarrow> string" where
  "path_join dir name = dir @ ''/'' @ name"

definition getCachePath :: "config \<Rightarrow> string \<Rightarrow> string" where
  "getCachePath C key = path_join (cacheDir C) (sanitize key @ ''.html'')"

definition cache_has :: "'w env \<Rightarrow> config \<Rightarrow> string \<Rightarrow> 'w \<Rightarrow> bool \<times> 'w" where
  "cache_has E C key w = existsSync E (getCachePath C key) w"

text \<open>\<^verbatim>\<open>get(key)\<close>: the file's content when \<^verbatim>\<open>has(key)\<close>, else \<^verbatim>\<open>null\<close>.\<close>

definition cache_get :: "'w env \<Rightarrow> config \<Rightarrow> string \<Rightarrow> 'w \<Rightarrow> (error + string option) \<times> 'w" where
  "cache_get E C key w =
     (case cache_has E C key w of
        (True, w1) \<Rightarrow>
          (case readFileSync E (getCachePath C key) w1 of
             (Inl e, w2) \<Rightarrow> (Inl e, w2)
           | (Inr content, w2) \<Rightarrow> (Inr (Some content), w2))
      | (False, w1) \<Rightarrow> (Inr None, w1))"

definition cache_set :: "'w env \<Rightarrow> config \<Rightarrow> string \<Rightarrow> string \<Rightarrow> 'w \<Rightarrow> (error + unit) \<times> 'w" where
  "cache_set E C key content w = writeFileSync E (getCachePath C key) content w"

text \<open>\<^verbatim>\<open>!html\<close> for a value that is \<^verbatim>\<open>null\<close> or a string: true of \<^verbatim>\<open>null\<close> and of \<^verbatim>\<open>''\<close>.\<close>

fun falsy :: "string option \<Rightarrow> bool" where
  "falsy None = True"
| "falsy (Some h) = (h = [])"

section \<open>URLs\<close>

definition base :: string where
  "base = ''https://market.sec.or.th''"

text \<open>\<^verbatim>\<open>URLS.getListUrl()\<close>: the dates with every \<^verbatim>\<open>-\<close> removed.\<close>

definition getListUrl :: "config \<Rightarrow> string" where
  "getListUrl C =
     base @ ''/public/idisc/en/ViewMore/filing-dw?SecuTypeCode=DW&DbenEfftDateFrom=''
       @ filter (\<lambda>c. c \<noteq> CHR ''-'') (dateFrom C)
       @ ''&DbenEfftDateTo='' @ filter (\<lambda>c. c \<noteq> CHR ''-'') (dateTo C)
       @ ''&FilingData=0''"

definition detailURL :: "string \<Rightarrow> string" where
  "detailURL t = base @ ''/public/ipos/IPOSDW01.aspx?TransID='' @ t"

section \<open>Download Worker: \<^verbatim>\<open>downloadWarrant\<close>\<close>

text \<open>
  The file name in a \<^verbatim>\<open>content-disposition\<close> header:
  \<^verbatim>\<open>/filename[^;=\n]*=((['"]).*?\2|[^;\n]*)/\<close>. At a position where \<^verbatim>\<open>filename\<close>
  starts, the longest run without \<^verbatim>\<open>;\<close>, \<^verbatim>\<open>=\<close> and newline must be followed by
  \<^verbatim>\<open>=\<close> (a shorter run ends before a code unit that is not \<^verbatim>\<open>=\<close>). Group 1 is then a
  quoted string, closed by the first occurrence of its opening quote with no line
  terminator in between, or else the longest run without \<^verbatim>\<open>;\<close> and newline, which
  may be empty. The leftmost position that matches wins.
\<close>

definition quoted :: "char \<Rightarrow> string \<Rightarrow> string option" where
  "quoted q t =
     (let body = takeWhile (\<lambda>c. c \<noteq> q) t
      in if length body < length t \<and> CHR 0x0A \<notin> set body \<and> CHR 0x0D \<notin> set body
         then Some body else None)"

definition group1 :: "string \<Rightarrow> string" where
  "group1 v =
     (case v of
        [] \<Rightarrow> []
      | q # t \<Rightarrow>
          (if q = CHR 0x27 \<or> q = CHR 0x22 then
             (case quoted q t of
                Some body \<Rightarrow> q # body @ [q]
              | None \<Rightarrow> takeWhile (\<lambda>c. c \<noteq> CHR '';'' \<and> c \<noteq> CHR 0x0A) v)
           else takeWhile (\<lambda>c. c \<noteq> CHR '';'' \<and> c \<noteq> CHR 0x0A) v))"

definition match_here :: "string \<Rightarrow> string option" where
  "match_here h =
     (if prefix ''filename'' h then
        (case dropWhile (\<lambda>c. c \<noteq> CHR '';'' \<and> c \<noteq> CHR ''='' \<and> c \<noteq> CHR 0x0A) (drop 8 h) of
           [] \<Rightarrow> None
         | c # v \<Rightarrow> if c = CHR ''='' then Some (group1 v) else None)
      else None)"

fun filenameMatch :: "string \<Rightarrow> string option" where
  "filenameMatch [] = None"
| "filenameMatch (c # cs) =
     (case match_here (c # cs) of Some g \<Rightarrow> Some g | None \<Rightarrow> filenameMatch cs)"

text \<open>
  Lines 442 to 455: the name from the header when the header is there, matches and
  leaves a non-empty name after its quotes are removed; otherwise
  \<^verbatim>\<open>${safeSymbol}_Terms_${transID}.pdf\<close>.
\<close>

definition deriveFilename :: "string option \<Rightarrow> string \<Rightarrow> string \<Rightarrow> string" where
  "deriveFilename contentDisposition sy t =
     (let fromHeader =
            (case contentDisposition of
               None \<Rightarrow> None
             | Some cd \<Rightarrow>
                 if cd = [] then None
                 else (case filenameMatch cd of
                         None \<Rightarrow> None
                       | Some g \<Rightarrow>
                           if g = [] then None
                           else Some (filter (\<lambda>c. c \<noteq> CHR 0x27 \<and> c \<noteq> CHR 0x22) g)))
      in case fromHeader of
           None \<Rightarrow> sanitize sy @ ''_Terms_'' @ t @ ''.pdf''
         | Some f \<Rightarrow> if f = [] then sanitize sy @ ''_Terms_'' @ t @ ''.pdf'' else f)"

text \<open>
  Lines 420 to 429: the detail page from the cache, or, when the cache gives nothing or
  an empty page, after \<^verbatim>\<open>sleep(CONFIG.requestDelay)\<close> from the site, stored in the
  cache before it is returned. Reading \<^verbatim>\<open>.data\<close> of \<^verbatim>\<open>undefined\<close> throws.
\<close>

definition detail_html :: "'w env \<Rightarrow> config \<Rightarrow> string \<Rightarrow> 'w wstate \<Rightarrow> (error + string) \<times> 'w wstate" where
  "detail_html E C t s =
     (case cache_get E C (''detail_'' @ t) (world s) of
        (Inl e, w) \<Rightarrow> (Inl e, s\<lparr>world := w\<rparr>)
      | (Inr html, w) \<Rightarrow>
          (if falsy html then
             (case fetchWithRetry E C (detailURL t)
                     \<lparr>referer = Some (getListUrl C), arraybuffer = False\<rparr>
                     (s\<lparr>world := w, log := log s @ [Sleep (requestDelay C)]\<rparr>) of
                (Inl e, s1) \<Rightarrow> (Inl e, s1)
              | (Inr None, s1) \<Rightarrow>
                  (Inl (TypeError ''Cannot read properties of undefined (reading 'data')''), s1)
              | (Inr (Some r), s1) \<Rightarrow>
                  (case cache_set E C (''detail_'' @ t) (data r) (world s1) of
                     (Inl e, w2) \<Rightarrow> (Inl e, s1\<lparr>world := w2\<rparr>)
                   | (Inr u, w2) \<Rightarrow> (Inr (data r), s1\<lparr>world := w2\<rparr>)))
           else (case html of
                   Some h \<Rightarrow> (Inr h, s\<lparr>world := w\<rparr>)
                 | None \<Rightarrow> (Inr [], s\<lparr>world := w\<rparr>))))"

text \<open>
  Lines 442 to 470: the file name, \<^verbatim>\<open>fs.writeFileSync(filepath, fileResponse.data)\<close>,
  the tick of the progress bar and the success outcome.
\<close>

definition store_file ::
  "'w env \<Rightarrow> config \<Rightarrow> string \<Rightarrow> terms_info \<Rightarrow> response \<Rightarrow> 'w wstate \<Rightarrow> (error + outcome) \<times> 'w wstate" where
  "store_file E C t ti fileResponse s =
     (let filename = deriveFilename (content_disposition fileResponse) (symbol ti) t;
          filepath = path_join (downloadDir C) filename
      in case writeFileSync E filepath (data fileResponse) (world s) of
           (Inl e, w) \<Rightarrow> (Inl e, s\<lparr>world := w\<rparr>)
         | (Inr u, w) \<Rightarrow>
             (Inr (Success t (symbol ti) (issuer ti) filename (fileDate ti)
                     (length (data fileResponse))),
              s\<lparr>world := w, bar := bar s + 1\<rparr>))"

text \<open>
  Lines 431 to 440: the page is examined; without a terms link the bar ticks and the
  failure outcome is returned; otherwise the file is requested.
\<close>

definition examine :: "'w env \<Rightarrow> config \<Rightarrow> string \<Rightarrow> string \<Rightarrow> 'w wstate \<Rightarrow> (error + outcome) \<times> 'w wstate" where
  "examine E C t html s =
     (case extractTermsURL E html of
        Inl e \<Rightarrow> (Inl e, s)
      | Inr None \<Rightarrow> (Inr (Failure t ''Terms file not found''), s\<lparr>bar := bar s + 1\<rparr>)
      | Inr (Some ti) \<Rightarrow>
          (case fetchWithRetry E C (url ti)
                  \<lparr>referer = Some (detailURL t), arraybuffer = True\<rparr> s of
             (Inl e, s1) \<Rightarrow> (Inl e, s1)
           | (Inr None, s1) \<Rightarrow>
               (Inl (TypeError ''Cannot read properties of undefined (reading 'headers')''), s1)
           | (Inr (Some fileResponse), s1) \<Rightarrow> store_file E C t ti fileResponse s1))"

text \<open>The body of the \<^verbatim>\<open>try\<close> block: \<open>Inl\<close> is an exception leaving the block.\<close>

definition downloadWarrant_try :: "'w env \<Rightarrow> config \<Rightarrow> string \<Rightarrow> 'w wstate \<Rightarrow> (error + outcome) \<times> 'w wstate" where
  "downloadWarrant_try E C t s =
     (case detail_html E C t s of
        (Inl e, s1) \<Rightarrow> (Inl e, s1)
      | (Inr html, s1) \<Rightarrow> examine E C t html s1)"

text \<open>
  \<^verbatim>\<open>downloadWarrant\<close>: the \<^verbatim>\<open>try\<close> block and its \<^verbatim>\<open>catch\<close>, which ticks the bar and
  returns the failure outcome with the error's message. The result is \<open>Inr\<close> of the
  returned outcome, or \<open>Inl\<close> of an exception that leaves the function.
\<close>

definition downloadWarrant :: "'w env \<Rightarrow> config \<Rightarrow> string \<Rightarrow> 'w wstate \<Rightarrow> (error + outcome) \<times> 'w wstate" where
  "downloadWarrant E C t s =
     (case downloadWarrant_try E C t s of
        (Inr result, s1) \<Rightarrow> (Inr result, s1)
      | (Inl e, s1) \<Rightarrow> (Inr (Failure t (message e)), s1\<lparr>bar := bar s1 + 1\<rparr>))"

section \<open>The worker between two awaits\<close>

text \<open>
  \<^verbatim>\<open>downloadWarrant\<close> is an \<^verbatim>\<open>async\<close> function: a call runs up to its first \<^verbatim>\<open>await\<close>
  and hands back a promise; each time the awaited timer or request completes, the worker
  runs on to its next \<^verbatim>\<open>await\<close> or to its \<^verbatim>\<open>return\<close>. Between two awaits nothing else
  runs. The awaits of a worker are \<^verbatim>\<open>await sleep(CONFIG.requestDelay)\<close>, and inside
  \<^verbatim>\<open>fetchWithRetry\<close>, for the detail page and for the file,
  \<^verbatim>\<open>await httpClient.get(url, options)\<close> and \<^verbatim>\<open>await sleep(CONFIG.retryDelay * attempt)\<close>;
  a \<^verbatim>\<open>fetchWithRetry\<close> whose loop body never runs has returned \<^verbatim>\<open>undefined\<close> when it is
  awaited. A suspended worker is one of these points, with what it holds there; the
  answer to a request is fixed by the environment when the request is made and is handed
  to the worker when it resumes.
\<close>

datatype fetching = Detail | File terms_info

datatype wcont =
    Sleeping
  | Getting fetching nat "error + response"
  | Pausing fetching nat
  | NoAttempt fetching
  | Settled outcome

fun fetch_url :: "string \<Rightarrow> fetching \<Rightarrow> string" where
  "fetch_url t Detail = detailURL t"
| "fetch_url t (File ti) = url ti"

fun fetch_options :: "config \<Rightarrow> string \<Rightarrow> fetching \<Rightarrow> options" where
  "fetch_options C t Detail = \<lparr>referer = Some (getListUrl C), arraybuffer = False\<rparr>"
| "fetch_options C t (File ti) = \<lparr>referer = Some (detailURL t), arraybuffer = True\<rparr>"

text \<open>A \<^verbatim>\<open>return\<close> of the worker, and its \<^verbatim>\<open>catch\<close> block.\<close>

definition settle :: "outcome \<Rightarrow> 'w wstate \<Rightarrow> wcont \<times> 'w wstate" where
  "settle r s = (Settled r, s\<lparr>log := log s @ [WorkerSettled r]\<rparr>)"

definition caught :: "string \<Rightarrow> error \<Rightarrow> 'w wstate \<Rightarrow> wcont \<times> 'w wstate" where
  "caught t e s = settle (Failure t (message e)) (s\<lparr>bar := bar s + 1\<rparr>)"

text \<open>
  The head of the loop of \<^verbatim>\<open>fetchWithRetry\<close> at attempt \<open>n\<close>: the request is made when
  \<^verbatim>\<open>attempt <= retries\<close>, and otherwise the function returns \<^verbatim>\<open>undefined\<close>.
\<close>

definition attempt ::
  "'w env \<Rightarrow> config \<Rightarrow> string \<Rightarrow> fetching \<Rightarrow> nat \<Rightarrow> 'w wstate \<Rightarrow> wcont \<times> 'w wstate" where
  "attempt E C t ph n s =
     (if n \<le> retryAttempts C then
        (case httpGet E (fetch_url t ph) (fetch_options C t ph) (world s) of
           (res, w) \<Rightarrow>
             (Getting ph n res, s\<lparr>world := w, log := log s @ [HttpGet (fetch_url t ph)]\<rparr>))
      else (NoAttempt ph, s))"

text \<open>Lines 431 to 440, up to the await of the request for the file.\<close>

definition examine_start ::
  "'w env \<Rightarrow> config \<Rightarrow> string \<Rightarrow> string \<Rightarrow> 'w wstate \<Rightarrow> wcont \<times> 'w wstate" where
  "examine_start E C t html s =
     (case extractTermsURL E html of
        Inl e \<Rightarrow> caught t e s
      | Inr None \<Rightarrow> settle (Failure t ''Terms file not found'') (s\<lparr>bar := bar s + 1\<rparr>)
      | Inr (Some ti) \<Rightarrow> attempt E C t (File ti) 1 s)"

text \<open>
  The call of \<^verbatim>\<open>downloadWarrant(transID, ...)\<close>, up to the first await: the cache is read
  at once; a page found there is examined at once.
\<close>

definition start_worker :: "'w env \<Rightarrow> config \<Rightarrow> string \<Rightarrow> 'w wstate \<Rightarrow> wcont \<times> 'w wstate" where
  "start_worker E C t s =
     (case cache_get E C (''detail_'' @ t) (world s) of
        (Inl e, w) \<Rightarrow> caught t e (s\<lparr>world := w\<rparr>)
      | (Inr html, w) \<Rightarrow>
          (if falsy html
           then (Sleeping, s\<lparr>world := w, log := log s @ [Sleep (requestDelay C)]\<rparr>)
           else (case html of
                   Some h \<Rightarrow> examine_start E C t h (s\<lparr>world := w\<rparr>)
                 | None \<Rightarrow> examine_start E C t [] (s\<lparr>world := w\<rparr>))))"

text \<open>
  What follows a \<^verbatim>\<open>fetchWithRetry\<close> that returned a response: the detail page is
  stored in the cache and examined; the file is stored and the success outcome returned.
\<close>

definition received ::
  "'w env \<Rightarrow> config \<Rightarrow> string \<Rightarrow> fetching \<Rightarrow> response \<Rightarrow> 'w wstate \<Rightarrow> wcont \<times> 'w wstate" where
  "received E C t ph r s =
     (case ph of
        Detail \<Rightarrow>
          (case cache_set E C (''detail_'' @ t) (data r) (world s) of
             (Inl e, w) \<Rightarrow> caught t e (s\<lparr>world := w\<rparr>)
           | (Inr u, w) \<Rightarrow> examine_start E C t (data r) (s\<lparr>world := w\<rparr>))
      | File ti \<Rightarrow>
          (case store_file E C t ti r s of
             (Inl e, s1) \<Rightarrow> caught t e s1
           | (Inr result, s1) \<Rightarrow> settle result s1))"

text \<open>
  A suspended worker resumes: after the first pause the detail page is requested; an
  answer is a response, or an error that is rethrown at the last attempt and otherwise
  followed by the pause \<^verbatim>\<open>CONFIG.retryDelay * attempt\<close>; after that pause comes the next
  attempt; reading \<^verbatim>\<open>.data\<close> or \<^verbatim>\<open>.headers\<close> of \<^verbatim>\<open>undefined\<close> throws. A settled worker
  does not run again.
\<close>

fun resume :: "'w env \<Rightarrow> config \<Rightarrow> string \<Rightarrow> wcont \<Rightarrow> 'w wstate \<Rightarrow> wcont \<times> 'w wstate" where
  "resume E C t Sleeping s = attempt E C t Detail 1 s"
| "resume E C t (Getting ph n res) s =
     (case res of
        Inr r \<Rightarrow> received E C t ph r (s\<lparr>log := log s @ [Response (fetch_url t ph)]\<rparr>)
      | Inl e \<Rightarrow>
          if n = retryAttempts C
          then caught t e (s\<lparr>log := log s @ [Response (fetch_url t ph)]\<rparr>)
          else (Pausing ph n,
                s\<lparr>log := log s @ [Response (fetch_url t ph), Sleep (retryDelay C * n)]\<rparr>))"
| "resume E C t (Pausing ph n) s = attempt E C t ph (n + 1) s"
| "resume E C t (NoAttempt ph) s =
     caught t
       (case ph of
          Detail \<Rightarrow> TypeError ''Cannot read properties of undefined (reading 'data')''
        | File ti \<Rightarrow> TypeError ''Cannot read properties of undefined (reading 'headers')'')
       s"
| "resume E C t (Settled r) s = (Settled r, s)"

text \<open>
  A bound on the number of times a worker can still resume, and the worker resumed
  until it settles.
\<close>

definition steps_after :: "config \<Rightarrow> fetching \<Rightarrow> nat" where
  "steps_after C ph = (case ph of Detail \<Rightarrow> 2 * retryAttempts C + 4 | File ti \<Rightarrow> 0)"

fun steps_left :: "config \<Rightarrow> wcont \<Rightarrow> nat" where
  "steps_left C (Settled r) = 0"
| "steps_left C (NoAttempt ph) = 1"
| "steps_left C (Getting ph n res) = 2 * (retryAttempts C - n) + 3 + steps_after C ph"
| "steps_left C (Pausing ph n) = 2 * (retryAttempts C - n) + 2 + steps_after C ph"
| "steps_left C Sleeping = 4 * retryAttempts C + 8"

function finish :: "'w env \<Rightarrow> config \<Rightarrow> string \<Rightarrow> wcont \<Rightarrow> 'w wstate \<Rightarrow> outcome \<times> 'w wstate" where
  "finish E C t k s =
     (case k of
        Settled r \<Rightarrow> (r, s)
      | _ \<Rightarrow> (case resume E C t k s of (k1, s1) \<Rightarrow> finish E C t k1 s1))"
  by pat_completeness auto
termination
  by (relation "measure (\<lambda>(E, C, t, k, s). steps_left C k)")
    (auto simp: attempt_def examine_start_def received_def caught_def settle_def steps_after_def
      split: prod.splits sum.splits option.splits if_splits fetching.splits)

declare finish.simps [simp del]

section \<open>Listing Resolver: \<^verbatim>\<open>extractTransIDs\<close>\<close>

text \<open>
  The listing page from the cache, or from the site when the cache gives nothing or an
  empty page, and then stored; the IDs of its rows. Every error of the \<^verbatim>\<open>try\<close> block is
  rethrown as \<^verbatim>\<open>Failed to fetch listings: ...\<close>.
\<close>

definition listing_html :: "'w env \<Rightarrow> config \<Rightarrow> 'w wstate \<Rightarrow> (error + string) \<times> 'w wstate" where
  "listing_html E C s =
     (case cache_get E C (''listing_'' @ dateFrom C @ ''_'' @ dateTo C) (world s) of
        (Inl e, w) \<Rightarrow> (Inl e, s\<lparr>world := w\<rparr>)
      | (Inr html, w) \<Rightarrow>
          (if falsy html then
             (case fetchWithRetry E C (getListUrl C) \<lparr>referer = None, arraybuffer = False\<rparr>
                     (s\<lparr>world := w\<rparr>) of
                (Inl e, s1) \<Rightarrow> (Inl e, s1)
              | (Inr None, s1) \<Rightarrow>
                  (Inl (TypeError ''Cannot read properties of undefined (reading 'data')''), s1)
              | (Inr (Some r), s1) \<Rightarrow>
                  (case cache_set E C (''listing_'' @ dateFrom C @ ''_'' @ dateTo C) (data r)
                          (world s1) of
                     (Inl e, w2) \<Rightarrow> (Inl e, s1\<lparr>world := w2\<rparr>)
                   | (Inr u, w2) \<Rightarrow> (Inr (data r), s1\<lparr>world := w2\<rparr>)))
           else (case html of
                   Some h \<Rightarrow> (Inr h, s\<lparr>world := w\<rparr>)
                 | None \<Rightarrow> (Inr [], s\<lparr>world := w\<rparr>))))"

definition extractTransIDs :: "'w env \<Rightarrow> config \<Rightarrow> 'w wstate \<Rightarrow> (error + string list) \<times> 'w wstate" where
  "extractTransIDs E C s =
     (case listing_html E C s of
        (Inl e, s1) \<Rightarrow> (Inl (Error (''Failed to fetch listings: '' @ message e)), s1)
      | (Inr html, s1) \<Rightarrow>
          (case listingTransIDs E html of
             Inl e \<Rightarrow> (Inl (Error (''Failed to fetch listings: '' @ message e)), s1)
           | Inr transIDs \<Rightarrow> (Inr transIDs, s1)))"

section \<open>The progress file: \<^verbatim>\<open>ProgressTracker\<close>\<close>

text \<open>
  \<^verbatim>\<open>new ProgressTracker(CONFIG.progressFile)\<close>: the file is read when it exists; a file
  that cannot be read or parsed gives the empty ledger. The run is followed for progress
  files that hold a ledger state; what \<^verbatim>\<open>load()\<close> makes of the other shapes is the
  subject of the section on \<^verbatim>\<open>ProgressTracker.load\<close> below.
\<close>

definition load_tracker :: "'w env \<Rightarrow> config \<Rightarrow> 'w \<Rightarrow> progress_data \<times> 'w" where
  "load_tracker E C w =
     (case existsSync E (progressFile C) w of
        (True, w1) \<Rightarrow>
          (case readFileSync E (progressFile C) w1 of
             (Inl e, w2) \<Rightarrow> (empty_progress, w2)
           | (Inr content, w2) \<Rightarrow>
               (case parseLedger E content of
                  None \<Rightarrow> (empty_progress, w2)
                | Some d \<Rightarrow> (d, w2)))
      | (False, w1) \<Rightarrow> (empty_progress, w1))"

text \<open>
  The state of a run: the worker state, \<^verbatim>\<open>progress.data\<close> and the \<^verbatim>\<open>results\<close> array.
\<close>

record 'w rstate =
  ws :: "'w wstate"
  tracker :: progress_data
  results :: "outcome list"

text \<open>
  \<^verbatim>\<open>save()\<close>: \<^verbatim>\<open>fs.writeFileSync(this.filepath, JSON.stringify(this.data, null, 2))\<close>.
  The progress file is a file like the others; a write that throws leaves \<^verbatim>\<open>save()\<close>.
  The log records the content of each write that returns.
\<close>

definition save :: "'w env \<Rightarrow> config \<Rightarrow> 'w rstate \<Rightarrow> (error + unit) \<times> 'w rstate" where
  "save E C st =
     (case writeFileSync E (progressFile C) (stringifyLedger E (tracker st)) (world (ws st)) of
        (Inl e, w) \<Rightarrow> (Inl e, st\<lparr>ws := (ws st)\<lparr>world := w\<rparr>\<rparr>)
      | (Inr u, w) \<Rightarrow>
          (Inr (), st\<lparr>ws := (ws st)\<lparr>world := w, log := log (ws st) @ [LedgerSaved (tracker st)]\<rparr>\<rparr>))"

section \<open>Batch Scheduler: \<^verbatim>\<open>processDownloads\<close>\<close>

text \<open>
  The body of \<^verbatim>\<open>batchResults.forEach\<close>: \<^verbatim>\<open>markCompleted\<close> or \<^verbatim>\<open>markFailed\<close>, each
  ending in \<^verbatim>\<open>save()\<close>, then \<^verbatim>\<open>results.push(result)\<close>. An exception of \<^verbatim>\<open>save()\<close>
  ends the \<^verbatim>\<open>forEach\<close>.
\<close>

definition record_result :: "'w env \<Rightarrow> config \<Rightarrow> 'w rstate \<Rightarrow> outcome \<Rightarrow> (error + unit) \<times> 'w rstate" where
  "record_result E C st result =
     (case save E C (st\<lparr>tracker := (if success result then markCompleted (tracker st) result
                                     else markFailed (tracker st) result)\<rparr>) of
        (Inl e, st1) \<Rightarrow> (Inl e, st1)
      | (Inr u, st1) \<Rightarrow> (Inr (), st1\<lparr>results := results st1 @ [result]\<rparr>))"

fun record_results :: "'w env \<Rightarrow> config \<Rightarrow> 'w rstate \<Rightarrow> outcome list \<Rightarrow> (error + unit) \<times> 'w rstate" where
  "record_results E C st [] = (Inr (), st)"
| "record_results E C st (result # rest) =
     (case record_result E C st result of
        (Inl e, st1) \<Rightarrow> (Inl e, st1)
      | (Inr u, st1) \<Rightarrow> record_results E C st1 rest)"

text \<open>
  \<^verbatim>\<open>batch.map(transID => downloadWarrant(...))\<close> calls the workers one after the other,
  each up to its first await.
\<close>

fun invoke_all :: "'w env \<Rightarrow> config \<Rightarrow> string list \<Rightarrow> 'w wstate \<Rightarrow> wcont list \<times> 'w wstate" where
  "invoke_all E C [] s = ([], s)"
| "invoke_all E C (t # ts) s =
     (case start_worker E C t (s\<lparr>log := log s @ [WorkerInvoked t]\<rparr>) of
        (k, s1) \<Rightarrow> (case invoke_all E C ts s1 of (ks, s2) \<Rightarrow> (k # ks, s2)))"

text \<open>
  While \<^verbatim>\<open>Promise.all\<close> is awaited the suspended workers resume in the order in which
  their timers and requests complete. That order is not fixed by the code: it is a
  parameter, the list of the positions in the batch of the workers that resume, one
  after the other (a position outside the batch, or of a settled worker, changes
  nothing). When the list is used up, the workers still suspended are resumed until they
  settle, in the order of the batch. Every order of completion is the order of some
  list, under which all workers have settled when it is used up. \<^verbatim>\<open>Promise.all\<close>
  gives the outcomes in the order of the batch.
\<close>

definition resume_at ::
  "'w env \<Rightarrow> config \<Rightarrow> string list \<Rightarrow> nat \<Rightarrow> wcont list \<Rightarrow> 'w wstate \<Rightarrow> wcont list \<times> 'w wstate" where
  "resume_at E C batch i ks s =
     (if i < length ks \<and> i < length batch
      then (case resume E C (batch ! i) (ks ! i) s of (k, s1) \<Rightarrow> (ks[i := k], s1))
      else (ks, s))"

fun run_schedule ::
  "'w env \<Rightarrow> config \<Rightarrow> string list \<Rightarrow> nat list \<Rightarrow> wcont list \<Rightarrow> 'w wstate \<Rightarrow> wcont list \<times> 'w wstate" where
  "run_schedule E C batch [] ks s = (ks, s)"
| "run_schedule E C batch (i # sched) ks s =
     (case resume_at E C batch i ks s of (ks1, s1) \<Rightarrow> run_schedule E C batch sched ks1 s1)"

fun finish_all ::
  "'w env \<Rightarrow> config \<Rightarrow> string list \<Rightarrow> wcont list \<Rightarrow> 'w wstate \<Rightarrow> outcome list \<times> 'w wstate" where
  "finish_all E C (t # ts) (k # ks) s =
     (case finish E C t k s of
        (r, s1) \<Rightarrow> (case finish_all E C ts ks s1 of (rs, s2) \<Rightarrow> (r # rs, s2)))"
| "finish_all E C ts ks s = ([], s)"

definition workers_after ::
  "'w env \<Rightarrow> config \<Rightarrow> nat list \<Rightarrow> string list \<Rightarrow> 'w wstate \<Rightarrow> wcont list \<times> 'w wstate" where
  "workers_after E C sched batch s =
     (case invoke_all E C batch s of (ks, s1) \<Rightarrow> run_schedule E C batch sched ks s1)"

definition run_workers ::
  "'w env \<Rightarrow> config \<Rightarrow> nat list \<Rightarrow> string list \<Rightarrow> 'w wstate \<Rightarrow> outcome list \<times> 'w wstate" where
  "run_workers E C sched batch s =
     (case workers_after E C sched batch s of (ks, s1) \<Rightarrow> finish_all E C batch ks s1)"

text \<open>One turn of the loop: the batch is awaited as a whole, then its results are recorded.\<close>

definition process_batch ::
  "'w env \<Rightarrow> config \<Rightarrow> nat list \<Rightarrow> string list \<Rightarrow> 'w rstate \<Rightarrow> (error + unit) \<times> 'w rstate" where
  "process_batch E C sched batch st =
     (case run_workers E C sched batch (ws st) of
        (batchResults, s1) \<Rightarrow> record_results E C (st\<lparr>ws := s1\<rparr>) batchResults)"

text \<open>\<^verbatim>\<open>transIDs.slice(i, j)\<close> for \<open>0 \<le> i \<le> j\<close>.\<close>

definition slice :: "'a list \<Rightarrow> nat \<Rightarrow> nat \<Rightarrow> 'a list" where
  "slice xs i j = take (j - i) (drop i xs)"

text \<open>
  \<^verbatim>\<open>for (let i = 0; i < transIDs.length; i += CONFIG.concurrentDownloads)\<close>. The order
  of completion in the batch that starts at \<open>i\<close> is \<open>order i\<close>. With a step of 0 the loop
  does not end: the result is \<open>None\<close>.
\<close>

partial_function (option) batch_loop ::
  "'w env \<Rightarrow> config \<Rightarrow> (nat \<Rightarrow> nat list) \<Rightarrow> string list \<Rightarrow> nat \<Rightarrow> 'w rstate
     \<Rightarrow> ((error + unit) \<times> 'w rstate) option" where
  "batch_loop E C order transIDs i st =
     (if i < length transIDs then
        (case process_batch E C (order i) (slice transIDs i (i + concurrentDownloads C)) st of
           (Inl e, st1) \<Rightarrow> Some (Inl e, st1)
         | (Inr u, st1) \<Rightarrow> batch_loop E C order transIDs (i + concurrentDownloads C) st1)
      else Some (Inr (), st))"

declare batch_loop.simps [code]

definition processDownloads ::
  "'w env \<Rightarrow> config \<Rightarrow> (nat \<Rightarrow> nat list) \<Rightarrow> string list \<Rightarrow> 'w rstate
     \<Rightarrow> ((error + outcome list) \<times> 'w rstate) option" where
  "processDownloads E C order transIDs st =
     (case batch_loop E C order transIDs 0 (st\<lparr>results := [], ws := (ws st)\<lparr>bar := 0\<rparr>\<rparr>) of
        None \<Rightarrow> None
      | Some (Inl e, st1) \<Rightarrow> Some (Inl e, st1)
      | Some (Inr u, st1) \<Rightarrow> Some (Inr (results st1), st1))"

section \<open>The pipeline: \<^verbatim>\<open>main\<close>\<close>

text \<open>
  How a run ends: \<^verbatim>\<open>process.exit(0)\<close> with no warrants found or with all files
  already downloaded, the summary after the downloads, or \<^verbatim>\<open>process.exit(1)\<close> from the
  \<^verbatim>\<open>catch\<close> of \<^verbatim>\<open>main\<close>.
\<close>

datatype run_end =
    NoWarrants
  | AllDownloaded
  | Completed "outcome list"
  | Fatal string

text \<open>
  \<^verbatim>\<open>main\<close> from the point where the configuration is fixed and the start confirmed:
  the tracker is loaded, the listing resolved, \<^verbatim>\<open>setPending\<close> called and saved, and the
  pending IDs are scheduled. A run starts from a state of the world, in which the two
  folders are taken to exist.
\<close>

definition main ::
  "'w env \<Rightarrow> config \<Rightarrow> (nat \<Rightarrow> nat list) \<Rightarrow> 'w \<Rightarrow> (run_end \<times> 'w rstate) option" where
  "main E C order w =
     (case load_tracker E C w of
        (d, w0) \<Rightarrow>
          (let st0 = \<lparr>ws = \<lparr>world = w0, log = [], bar = 0\<rparr>, tracker = d, results = []\<rparr>
           in case extractTransIDs E C (ws st0) of
                (Inl e, s1) \<Rightarrow> Some (Fatal (message e), st0\<lparr>ws := s1\<rparr>)
              | (Inr allTransIDs, s1) \<Rightarrow>
                  if allTransIDs = [] then Some (NoWarrants, st0\<lparr>ws := s1\<rparr>)
                  else
                    (case save E C (st0\<lparr>ws := s1, tracker := setPending (tracker st0) allTransIDs\<rparr>) of
                       (Inl e, st1) \<Rightarrow> Some (Fatal (message e), st1)
                     | (Inr u, st1) \<Rightarrow>
                         (let pendingTransIDs = getPending (tracker st1)
                          in if pendingTransIDs = [] then Some (AllDownloaded, st1)
                             else (case processDownloads E C order pendingTransIDs st1 of
                                     None \<Rightarrow> None
                                   | Some (Inl e, st2) \<Rightarrow> Some (Fatal (message e), st2)
                                   | Some (Inr rs, st2) \<Rightarrow> Some (Completed rs, st2))))))"

section \<open>A file system that keeps what is written\<close>

text \<open>
  An instance of the environment: files are a map from paths to contents, writes
  succeed and are read back; the site answers the \<open>n\<close>-th request of a run of the
  world by \<open>server n\<close>, so that an answer may differ from one request to the next. A
  ledger state is written as a text from which it is read back: numbers in unary, each
  string after its length, each list after its length.
\<close>

record disk =
  files :: "string \<rightharpoonup> string"
  calls :: nat

fun write_nat :: "nat \<Rightarrow> string" where
  "write_nat 0 = ''.''"
| "write_nat (Suc n) = CHR ''1'' # write_nat n"

fun read_nat :: "string \<Rightarrow> (nat \<times> string) option" where
  "read_nat [] = None"
| "read_nat (c # cs) =
     (if c = CHR ''.'' then Some (0, cs)
      else if c = CHR ''1'' then (case read_nat cs of None \<Rightarrow> None | Some (n, r) \<Rightarrow> Some (Suc n, r))
      else None)"

definition write_string :: "string \<Rightarrow> string" where
  "write_string x = write_nat (length x) @ x"

definition read_string :: "string \<Rightarrow> (string \<times> string) option" where
  "read_string x =
     (case read_nat x of
        None \<Rightarrow> None
      | Some (n, r) \<Rightarrow> if n \<le> length r then Some (take n r, drop n r) else None)"

fun write_outcome :: "outcome \<Rightarrow> string" where
  "write_outcome (Failure t r) = CHR ''F'' # write_string t @ write_string r"
| "write_outcome (Success t sy iss fn fd sz) =
     CHR ''S'' # write_string t @ write_string sy @ write_string iss @ write_string fn
       @ (case fd of None \<Rightarrow> ''N'' | Some d \<Rightarrow> CHR ''D'' # write_string d) @ write_nat sz"

definition read_date :: "string \<Rightarrow> (string option \<times> string) option" where
  "read_date x =
     (case x of
        [] \<Rightarrow> None
      | c # cs \<Rightarrow>
          if c = CHR ''N'' then Some (None, cs)
          else if c = CHR ''D''
          then (case read_string cs of None \<Rightarrow> None | Some (d, r) \<Rightarrow> Some (Some d, r))
          else None)"

definition read_outcome :: "string \<Rightarrow> (outcome \<times> string) option" where
  "read_outcome x =
     (case x of
        [] \<Rightarrow> None
      | c # cs \<Rightarrow>
          if c = CHR ''F'' then
            (case read_string cs of
               None \<Rightarrow> None
             | Some (t, r1) \<Rightarrow>
                 (case read_string r1 of
                    None \<Rightarrow> None
                  | Some (r, r2) \<Rightarrow> Some (Failure t r, r2)))
          else if c = CHR ''S'' then
            (case read_string cs of
               None \<Rightarrow> None
             | Some (t, r1) \<Rightarrow>
                 (case read_string r1 of
                    None \<Rightarrow> None
                  | Some (sy, r2) \<Rightarrow>
                      (case read_string r2 of
                         None \<Rightarrow> None
                       | Some (iss, r3) \<Rightarrow>
                           (case read_string r3 of
                              None \<Rightarrow> None
                            | Some (fn, r4) \<Rightarrow>
                                (case read_date r4 of
                                   None \<Rightarrow> None
                                 | Some (fd, r5) \<Rightarrow>
                                     (case read_nat r5 of
                                        None \<Rightarrow> None
                                      | Some (sz, r6) \<Rightarrow> Some (Success t sy iss fn fd sz, r6)))))))
          else None)"

definition write_list :: "('a \<Rightarrow> string) \<Rightarrow> 'a list \<Rightarrow> string" where
  "write_list wr xs = write_nat (length xs) @ concat (map wr xs)"

fun read_items :: "(string \<Rightarrow> ('a \<times> string) option) \<Rightarrow> nat \<Rightarrow> string \<Rightarrow> ('a list \<times> string) option" where
  "read_items rd 0 x = Some ([], x)"
| "read_items rd (Suc n) x =
     (case rd x of
        None \<Rightarrow> None
      | Some (a, r) \<Rightarrow>
          (case read_items rd n r of None \<Rightarrow> None | Some (as, r') \<Rightarrow> Some (a # as, r')))"

definition read_list :: "(string \<Rightarrow> ('a \<times> string) option) \<Rightarrow> string \<Rightarrow> ('a list \<times> string) option" where
  "read_list rd x = (case read_nat x of None \<Rightarrow> None | Some (n, r) \<Rightarrow> read_items rd n r)"

definition write_progress :: "progress_data \<Rightarrow> string" where
  "write_progress d =
     write_list write_outcome (completed d) @ write_list write_outcome (failed d)
       @ write_list write_string (pending d)"

definition read_progress :: "string \<Rightarrow> progress_data option" where
  "read_progress x =
     (case read_list read_outcome x of
        None \<Rightarrow> None
      | Some (cs, r1) \<Rightarrow>
          (case read_list read_outcome r1 of
             None \<Rightarrow> None
           | Some (fs, r2) \<Rightarrow>
               (case read_list read_string r2 of
                  None \<Rightarrow> None
                | Some (ps, r3) \<Rightarrow>
                    if r3 = [] then Some \<lparr>completed = cs, failed = fs, pending = ps\<rparr>
                    else None)))"

definition disk_env ::
  "(nat \<Rightarrow> string \<Rightarrow> options \<Rightarrow> error + response) \<Rightarrow> (string \<Rightarrow> error + terms_info option)
     \<Rightarrow> (string \<Rightarrow> error + string list) \<Rightarrow> disk env" where
  "disk_env server termsOf idsOf =
     \<lparr>httpGet = (\<lambda>u opts w. (server (calls w) u opts, w\<lparr>calls := calls w + 1\<rparr>)),
      existsSync = (\<lambda>p w. (files w p \<noteq> None, w)),
      readFileSync = (\<lambda>p w.
         (case files w p of
            None \<Rightarrow> Inl (Error ''ENOENT: no such file or directory'')
          | Some c \<Rightarrow> Inr c, w)),
      writeFileSync = (\<lambda>p c w. (Inr (), w\<lparr>files := (files w)(p \<mapsto> c)\<rparr>)),
      extractTermsURL = termsOf,
      listingTransIDs = idsOf,
      stringifyLedger = write_progress,
      parseLedger = read_progress\<rparr>"

section \<open>Auxiliary notions for the statements\<close>

text \<open>
  The log of a call of \<^verbatim>\<open>fetchWithRetry\<close> that starts at attempt \<open>a\<close>, fails \<open>k\<close> times
  and then makes one more request: after the failed attempt \<open>n\<close> comes the pause
  \<open>d * n\<close>.
\<close>

definition retry_log :: "string \<Rightarrow> nat \<Rightarrow> nat \<Rightarrow> nat \<Rightarrow> event list" where
  "retry_log u d a k = concat (map (\<lambda>n. [HttpGet u, Sleep (d * n)]) [a..<a + k]) @ [HttpGet u]"

fun world_after :: "'w env \<Rightarrow> string \<Rightarrow> options \<Rightarrow> nat \<Rightarrow> 'w \<Rightarrow> 'w" where
  "world_after E u opts 0 w = w"
| "world_after E u opts (Suc n) w = world_after E u opts n (snd (httpGet E u opts w))"

text \<open>Sample inputs for the closed instances below.\<close>

definition sample_config :: config where
  "sample_config =
     \<lparr>downloadDir = ''downloads'', cacheDir = ''downloads/.cache'',
      progressFile = ''downloads/.progress.json'', concurrentDownloads = 3,
      retryAttempts = 3, retryDelay = 2000, requestDelay = 1000,
      dateFrom = ''2026-01-01'', dateTo = ''2026-01-31''\<rparr>"

definition no_options :: options where
  "no_options = \<lparr>referer = None, arraybuffer = False\<rparr>"

text \<open>A site whose first \<open>k\<close> answers are timeouts and whose later answers are a page.\<close>

definition flaky_server :: "nat \<Rightarrow> string \<Rightarrow> nat \<Rightarrow> string \<Rightarrow> options \<Rightarrow> error + response" where
  "flaky_server k body n u opts =
     (if n < k then Inl (Error ''timeout of 30000ms exceeded'')
      else Inr \<lparr>data = body, content_disposition = None\<rparr>)"

definition sample_terms :: "string \<Rightarrow> error + terms_info option" where
  "sample_terms html =
     (if html = [] then Inr None
      else Inr (Some \<lparr>url = ''https://market.sec.or.th/file'', issuer = ''Issuer'',
                      symbol = ''ABC'', fileDate = None\<rparr>))"

definition fresh_disk :: disk where
  "fresh_disk = \<lparr>files = Map.empty, calls = 0\<rparr>"

definition fresh_wstate :: "disk wstate" where
  "fresh_wstate = \<lparr>world = fresh_disk, log = [], bar = 0\<rparr>"

text \<open>
  For the scheduler: the consecutive batches of at most \<open>c\<close> items of a list, and the
  batches processed one after the other, each one as a whole; the batch that starts at
  index \<open>i\<close> completes in the order \<open>order i\<close>.
\<close>

function chop :: "nat \<Rightarrow> 'a list \<Rightarrow> 'a list list" where
  "chop c xs = (if c = 0 \<or> xs = [] then [] else take c xs # chop c (drop c xs))"
  by pat_completeness auto
termination
  by (relation "measure (\<lambda>(c, xs). length xs)") auto

declare chop.simps [simp del]

fun run_batches ::
  "'w env \<Rightarrow> config \<Rightarrow> (nat \<Rightarrow> nat list) \<Rightarrow> nat \<Rightarrow> string list list \<Rightarrow> 'w rstate
     \<Rightarrow> (error + unit) \<times> 'w rstate" where
  "run_batches E C order i [] st = (Inr (), st)"
| "run_batches E C order i (b # bs) st =
     (case process_batch E C (order i) b st of
        (Inl e, st1) \<Rightarrow> (Inl e, st1)
      | (Inr u, st1) \<Rightarrow> run_batches E C order (i + concurrentDownloads C) bs st1)"

text \<open>
  The workers and the requests in flight along a log: \<open>flight c (n, m) evs\<close> follows the
  number \<open>n\<close> of workers invoked and not yet settled and the number \<open>m\<close> of requests made
  and not yet answered. It is \<open>None\<close> when an invocation would bring the first number
  above \<open>c\<close> or a request the second, and when a settlement or an answer has nothing to
  settle or to answer; otherwise it is \<open>Some\<close> of the two numbers at the end.
\<close>

fun flight :: "nat \<Rightarrow> nat \<times> nat \<Rightarrow> event list \<Rightarrow> (nat \<times> nat) option" where
  "flight c (n, m) [] = Some (n, m)"
| "flight c (n, m) (WorkerInvoked t # evs) = (if n + 1 \<le> c then flight c (n + 1, m) evs else None)"
| "flight c (n, m) (WorkerSettled r # evs) = (if 0 < n then flight c (n - 1, m) evs else None)"
| "flight c (n, m) (HttpGet u # evs) = (if m + 1 \<le> c then flight c (n, m + 1) evs else None)"
| "flight c (n, m) (Response u # evs) = (if 0 < m then flight c (n, m - 1) evs else None)"
| "flight c (n, m) (Sleep ms # evs) = flight c (n, m) evs"
| "flight c (n, m) (LedgerSaved d # evs) = flight c (n, m) evs"

text \<open>
  Whether a worker counts among those in flight, and among those with a request in
  flight; the invocations, the settlements and the saved ledger states of a log.
\<close>

fun running :: "wcont \<Rightarrow> nat" where
  "running (Settled r) = 0"
| "running k = 1"

fun requesting :: "wcont \<Rightarrow> nat" where
  "requesting (Getting ph n res) = 1"
| "requesting k = 0"

definition invoked :: "event list \<Rightarrow> string list" where
  "invoked evs = concat (map (\<lambda>ev. case ev of WorkerInvoked t \<Rightarrow> [t] | _ \<Rightarrow> []) evs)"

definition settled :: "event list \<Rightarrow> outcome list" where
  "settled evs = concat (map (\<lambda>ev. case ev of WorkerSettled r \<Rightarrow> [r] | _ \<Rightarrow> []) evs)"

definition saves :: "event list \<Rightarrow> progress_data list" where
  "saves evs = concat (map (\<lambda>ev. case ev of LedgerSaved d \<Rightarrow> [d] | _ \<Rightarrow> []) evs)"

text \<open>
  The ledger after an outcome is marked, the successive contents of the ledger as a list
  of outcomes is marked, and whether a ledger state records an ID as completed or
  failed.
\<close>

definition mark :: "progress_data \<Rightarrow> outcome \<Rightarrow> progress_data" where
  "mark d r = (if success r then markCompleted d r else markFailed d r)"

fun ledger_seq :: "progress_data \<Rightarrow> outcome list \<Rightarrow> progress_data list" where
  "ledger_seq d [] = []"
| "ledger_seq d (r # rs) = mark d r # ledger_seq (mark d r) rs"


definition fresh_rstate :: "disk rstate" where
  "fresh_rstate = \<lparr>ws = fresh_wstate, tracker = empty_progress, results = []\<rparr>"

section \<open>Loading the progress file: \<^verbatim>\<open>ProgressTracker.load\<close>\<close>

text \<open>
  \<^verbatim>\<open>load()\<close> returns whatever \<^verbatim>\<open>JSON.parse\<close> makes of the file, so the loaded state
  is a JSON value of any shape. \<^verbatim>\<open>JSON.parse\<close> is a parameter: \<open>None\<close> when it throws.
\<close>

datatype json =
    JNull
  | JBool bool
  | JNum int
  | JStr string
  | JArr "json list"
  | JObj "(string \<times> json) list"

text \<open>The progress file: no file, a file that cannot be read, or the text of the file.\<close>

datatype file_state = Absent | Unreadable | Content string

definition empty_state :: json where
  "empty_state = JObj [(''completed'', JArr []), (''failed'', JArr []), (''pending'', JArr [])]"

definition load :: "(string \<Rightarrow> json option) \<Rightarrow> file_state \<Rightarrow> json" where
  "load JSON_parse file =
     (case file of
        Absent \<Rightarrow> empty_state
      | Unreadable \<Rightarrow> empty_state
      | Content text \<Rightarrow>
          (case JSON_parse text of
             None \<Rightarrow> empty_state
           | Some v \<Rightarrow> v))"

text \<open>
  Reading property \<open>k\<close> of a parsed value, for the keys the tracker reads
  (\<^verbatim>\<open>completed\<close>, \<^verbatim>\<open>transID\<close>), none of which is a built-in property: \<^verbatim>\<open>null.k\<close>
  throws, an object gives the value under the key or \<^verbatim>\<open>undefined\<close> (\<open>None\<close>), every
  other value gives \<^verbatim>\<open>undefined\<close>.
\<close>

fun get_prop :: "json \<Rightarrow> string \<Rightarrow> error + json option" where
  "get_prop JNull k = Inl (TypeError (''Cannot read properties of null (reading '' @ k @ '')''))"
| "get_prop (JObj kvs) k = Inr (map_of kvs k)"
| "get_prop v k = Inr None"

text \<open>
  \<^verbatim>\<open>items.some(item => item.transID === transID)\<close>: stops at the first item that
  matches; \<^verbatim>\<open>===\<close> with a string holds of that string only.
\<close>

fun some_transID :: "json list \<Rightarrow> string \<Rightarrow> error + bool" where
  "some_transID [] t = Inr False"
| "some_transID (item # items) t =
     (case get_prop item ''transID'' of
        Inl e \<Rightarrow> Inl e
      | Inr v \<Rightarrow> if v = Some (JStr t) then Inr True else some_transID items t)"

text \<open>
  \<^verbatim>\<open>isCompleted\<close> on the loaded value: \<^verbatim>\<open>this.data.completed.some(...)\<close> throws
  unless \<^verbatim>\<open>completed\<close> is an array.
\<close>

definition isCompleted_loaded :: "json \<Rightarrow> string \<Rightarrow> error + bool" where
  "isCompleted_loaded d t =
     (case get_prop d ''completed'' of
        Inl e \<Rightarrow> Inl e
      | Inr (Some (JArr items)) \<Rightarrow> some_transID items t
      | Inr (Some v) \<Rightarrow> Inl (TypeError ''this.data.completed.some is not a function'')
      | Inr None \<Rightarrow> Inl (TypeError ''Cannot read properties of undefined (reading 'some')''))"

text \<open>
  \<^verbatim>\<open>transIDs.filter(id => !this.isCompleted(id))\<close>, the first step of
  \<^verbatim>\<open>setPending\<close>, on the loaded value.
\<close>

fun filter_pending :: "json \<Rightarrow> string list \<Rightarrow> error + string list" where
  "filter_pending d [] = Inr []"
| "filter_pending d (t # ts) =
     (case isCompleted_loaded d t of
        Inl e \<Rightarrow> Inl e
      | Inr c \<Rightarrow>
          (case filter_pending d ts of
             Inl e \<Rightarrow> Inl e
           | Inr rest \<Rightarrow> Inr (if c then rest else t # rest)))"

text \<open>
  The JSON value of a ledger state that \<^verbatim>\<open>save()\<close> writes and \<^verbatim>\<open>load()\<close> reads back.
\<close>

fun outcome_json :: "outcome \<Rightarrow> json" where
  "outcome_json (Failure t r) =
     JObj [(''success'', JBool False), (''transID'', JStr t), (''reason'', JStr r)]"
| "outcome_json (Success t sy iss fn fd sz) =
     JObj [(''success'', JBool True), (''transID'', JStr t), (''symbol'', JStr sy),
           (''issuer'', JStr iss), (''filename'', JStr fn),
           (''fileDate'', (case fd of None \<Rightarrow> JNull | Some d \<Rightarrow> JStr d)),
           (''fileSize'', JNum (int sz))]"

definition progress_json :: "progress_data \<Rightarrow> json" where
  "progress_json d =
     JObj [(''completed'', JArr (map outcome_json (completed d))),
           (''failed'', JArr (map outcome_json (failed d))),
           (''pending'', JArr (map JStr (pending d)))]"

text \<open>\<^verbatim>\<open>JSON.parse\<close> on the text \<^verbatim>\<open>{}\<close>, which it parses to the object without keys.\<close>

definition parse_braces :: "string \<Rightarrow> json option" where
  "parse_braces text = (if text = ''{}'' then Some (JObj []) else None)"

text \<open>
  Sample sites for the closed instances about whole runs. The first always answers with
  the same page and lists items 1 and 2.
\<close>

definition steady_site :: "disk env" where
  "steady_site = disk_env (flaky_server 0 ''<html>page</html>'') sample_terms (\<lambda>h. Inr [''1'', ''2''])"

text \<open>The order of completion in which every worker runs to its end in turn.\<close>

definition in_turn :: "nat \<Rightarrow> nat list" where
  "in_turn i = []"

text \<open>An order of completion in which two workers of a batch take turns.\<close>

definition alternating :: "nat \<Rightarrow> nat list" where
  "alternating i = [0, 1, 0, 1]"


text \<open>A file system whose cache files exist and cannot be read.\<close>

definition locked_cache_env :: "disk env" where
  "locked_cache_env =
     (disk_env (flaky_server 0 ''<html></html>'') sample_terms (\<lambda>h. Inr []))
       \<lparr>existsSync := (\<lambda>p w. (True, w)),
        readFileSync := (\<lambda>p w. (Inl (Error ''EACCES: permission denied''), w))\<rparr>"

text \<open>
  Environments in which one step of the worker throws: the examination of the page, the
  request for the file, a write outside the cache folder, and every write.
\<close>

definition parse_error_terms :: "string \<Rightarrow> error + terms_info option" where
  "parse_error_terms html = Inl (Error ''Unmatched selector'')"

definition no_file_server :: "nat \<Rightarrow> string \<Rightarrow> options \<Rightarrow> error + response" where
  "no_file_server n u opts =
     (if u = ''https://market.sec.or.th/file'' then Inl (Error ''Request failed with status code 404'')
      else Inr \<lparr>data = ''<html>page</html>'', content_disposition = None\<rparr>)"

definition readonly_folder_env :: "disk env" where
  "readonly_folder_env =
     (disk_env (flaky_server 0 ''<html>page</html>'') sample_terms (\<lambda>h. Inr []))
       \<lparr>writeFileSync := (\<lambda>p c w.
          if prefix ''downloads/.cache/'' p then (Inr (), w\<lparr>files := (files w)(p \<mapsto> c)\<rparr>)
          else (Inl (Error ''EACCES: permission denied''), w))\<rparr>"

definition full_disk_env :: "disk env" where
  "full_disk_env =
     (disk_env (flaky_server 0 ''<html>page</html>'') sample_terms (\<lambda>h. Inr []))
       \<lparr>writeFileSync := (\<lambda>p c w. (Inl (Error ''ENOSPC: no space left on device''), w))\<rparr>"

section \<open>Properties of the ledger\<close>

lemma isCompleted_iff: "isCompleted d t \<longleftrightarrow> t \<in> completed_ids d"
  by (auto simp: isCompleted_def completed_ids_def list_ex_iff)

lemma completed_ids_setPending [simp]: "completed_ids (setPending d ids) = completed_ids d"
  by (simp add: completed_ids_def setPending_def)

lemma failed_ids_setPending [simp]: "failed_ids (setPending d ids) = failed_ids d"
  by (simp add: failed_ids_def setPending_def)

lemma completed_ids_markCompleted [simp]:
  "completed_ids (markCompleted d r) = insert (transID r) (completed_ids d)"
  by (simp add: completed_ids_def markCompleted_def)

lemma failed_ids_markCompleted [simp]: "failed_ids (markCompleted d r) = failed_ids d"
  by (simp add: failed_ids_def markCompleted_def)

lemma completed_ids_markFailed [simp]: "completed_ids (markFailed d r) = completed_ids d"
  by (simp add: completed_ids_def markFailed_def)

lemma failed_ids_markFailed [simp]:
  "failed_ids (markFailed d r) = insert (transID r) (failed_ids d)"
  by (simp add: failed_ids_def markFailed_def)

lemma unmixed_call_step:
  assumes "completed_ids d \<inter> failed_ids d = {}" and "unmixed_call d c"
  shows "completed_ids (apply_call d c) \<inter> failed_ids (apply_call d c) = {}"
proof (cases c)
  case (SetPending ids)
  with assms show ?thesis by simp
next
  case (MarkCompleted r)
  with assms have "transID r \<notin> failed_ids d"
    by (auto simp: list_ex_iff failed_ids_def)
  with assms MarkCompleted show ?thesis by simp
next
  case (MarkFailed r)
  with assms have "transID r \<notin> completed_ids d"
    by (auto simp: list_ex_iff completed_ids_def)
  with assms MarkFailed show ?thesis by simp
qed

lemma unmixed_invariant:
  "completed_ids d \<inter> failed_ids d = {} \<Longrightarrow> unmixed d cs \<Longrightarrow>
   completed_ids (foldl apply_call d cs) \<inter> failed_ids (foldl apply_call d cs) = {}"
proof (induction cs arbitrary: d)
  case Nil
  then show ?case by simp
next
  case (Cons c cs)
  from Cons.prems have "completed_ids (apply_call d c) \<inter> failed_ids (apply_call d c) = {}"
    using unmixed_call_step by simp
  with Cons show ?case by simp
qed

text \<open>
  C3, as stated, fails: \<^verbatim>\<open>markCompleted\<close> filters \<^verbatim>\<open>pending\<close> only and leaves the
  failed list as it is. Item 7 fails in a first run, is pending again in the second
  (\<^verbatim>\<open>setPending\<close> excludes completed IDs only), succeeds there, and is then held by
  both lists.
\<close>

theorem C3_exclusivity_counterexample:
  "completed_ids (apply_calls empty_progress
      [SetPending [''7''], MarkFailed (Failure ''7'' ''timeout''),
       SetPending [''7''], MarkCompleted (Success ''7'' ''ABC'' ''X'' ''f.pdf'' None 3)])
   \<inter> failed_ids (apply_calls empty_progress
      [SetPending [''7''], MarkFailed (Failure ''7'' ''timeout''),
       SetPending [''7''], MarkCompleted (Success ''7'' ''ABC'' ''X'' ''f.pdf'' None 3)])
   = {''7''}"
  by (simp add: apply_calls_def empty_progress_def setPending_def markFailed_def
      markCompleted_def isCompleted_def completed_ids_def failed_ids_def)

text \<open>
  C3, amended: \<^verbatim>\<open>setPending\<close> keeps the completed and the failed list apart; from a
  state where no ID is in both, \<^verbatim>\<open>markCompleted\<close> leaves such a state exactly when the
  ID it marks is not in the failed list, and \<^verbatim>\<open>markFailed\<close> exactly when the ID is not
  in the completed list. Hence in every ledger state reached from the empty ledger by an
  unmixed sequence of calls (no ID is marked completed while the failed list holds it,
  nor marked failed while the completed list holds it), no ID is in both lists.
\<close>

theorem C3_exclusivity_unmixed:
  "(unmixed empty_progress cs \<longrightarrow>
      completed_ids (apply_calls empty_progress cs) \<inter> failed_ids (apply_calls empty_progress cs) = {})
   \<and> (completed_ids d \<inter> failed_ids d = {} \<longrightarrow>
        completed_ids (setPending d ids) \<inter> failed_ids (setPending d ids) = {}
      \<and> (completed_ids (markCompleted d r) \<inter> failed_ids (markCompleted d r) = {}
            \<longleftrightarrow> transID r \<notin> failed_ids d)
      \<and> (completed_ids (markFailed d r) \<inter> failed_ids (markFailed d r) = {}
            \<longleftrightarrow> transID r \<notin> completed_ids d))"
proof (intro conjI impI)
  assume "unmixed empty_progress cs"
  then show "completed_ids (apply_calls empty_progress cs)
      \<inter> failed_ids (apply_calls empty_progress cs) = {}"
    unfolding apply_calls_def
    by (intro unmixed_invariant) (simp_all add: completed_ids_def failed_ids_def empty_progress_def)
next
  assume "completed_ids d \<inter> failed_ids d = {}"
  then show "completed_ids (setPending d ids) \<inter> failed_ids (setPending d ids) = {}" by simp
next
  assume "completed_ids d \<inter> failed_ids d = {}"
  then show "completed_ids (markCompleted d r) \<inter> failed_ids (markCompleted d r) = {}
            \<longleftrightarrow> transID r \<notin> failed_ids d"
    by auto
next
  assume "completed_ids d \<inter> failed_ids d = {}"
  then show "completed_ids (markFailed d r) \<inter> failed_ids (markFailed d r) = {}
            \<longleftrightarrow> transID r \<notin> completed_ids d"
    by auto
qed

theorem C3_exclusivity_unmixed_witness:
  "unmixed empty_progress
      [SetPending [''7'', ''8''], MarkFailed (Failure ''7'' ''timeout''),
       MarkCompleted (Success ''8'' ''ABC'' ''X'' ''f.pdf'' None 3)]
   \<and> completed_ids (apply_calls empty_progress
      [SetPending [''7'', ''8''], MarkFailed (Failure ''7'' ''timeout''),
       MarkCompleted (Success ''8'' ''ABC'' ''X'' ''f.pdf'' None 3)])
     \<inter> failed_ids (apply_calls empty_progress
      [SetPending [''7'', ''8''], MarkFailed (Failure ''7'' ''timeout''),
       MarkCompleted (Success ''8'' ''ABC'' ''X'' ''f.pdf'' None 3)]) = {}
   \<and> completed_ids \<lparr>completed = [], failed = [Failure ''7'' ''timeout''], pending = [''8'']\<rparr>
     \<inter> failed_ids \<lparr>completed = [], failed = [Failure ''7'' ''timeout''], pending = [''8'']\<rparr> = {}
   \<and> completed_ids (markCompleted
        \<lparr>completed = [], failed = [Failure ''7'' ''timeout''], pending = [''8'']\<rparr>
        (Success ''8'' ''ABC'' ''X'' ''f.pdf'' None 3))
     \<inter> failed_ids (markCompleted
        \<lparr>completed = [], failed = [Failure ''7'' ''timeout''], pending = [''8'']\<rparr>
        (Success ''8'' ''ABC'' ''X'' ''f.pdf'' None 3)) = {}"
proof -
  let ?cs = "[SetPending [''7'', ''8''], MarkFailed (Failure ''7'' ''timeout''),
       MarkCompleted (Success ''8'' ''ABC'' ''X'' ''f.pdf'' None 3)]"
  let ?d = "\<lparr>completed = [], failed = [Failure ''7'' ''timeout''], pending = [''8'']\<rparr>"
  let ?r = "Success ''8'' ''ABC'' ''X'' ''f.pdf'' None 3"
  have u: "unmixed empty_progress ?cs"
    by (simp add: empty_progress_def setPending_def markFailed_def isCompleted_def)
  have e: "completed_ids ?d \<inter> failed_ids ?d = {}"
    by (simp add: completed_ids_def)
  have n: "transID ?r \<notin> failed_ids ?d"
    by (simp add: failed_ids_def)
  from u e n C3_exclusivity_unmixed [of ?cs ?d _ ?r] show ?thesis by blast
qed

text \<open>
  C4, as stated, fails: the completed list is kept across runs and is not tied to the
  listing, so a completed ID that the present listing does not hold stays in
  \<open>pending \<union> completed\<close>. The progress file of a download folder holds item 1 from an
  earlier date range; the listing of the present range holds item 2 only.
\<close>

theorem C4_setPending_counterexample:
  "set (pending (setPending
          \<lparr>completed = [Success ''1'' ''ABC'' ''X'' ''f.pdf'' None 3], failed = [], pending = []\<rparr>
          [''2'']))
   \<union> completed_ids (setPending
          \<lparr>completed = [Success ''1'' ''ABC'' ''X'' ''f.pdf'' None 3], failed = [], pending = []\<rparr>
          [''2''])
   \<noteq> set [''2'']"
  by (simp add: setPending_def isCompleted_def completed_ids_def)

text \<open>
  C4, amended: for every list \<open>allIDs\<close> and every prior ledger state, after
  \<^verbatim>\<open>setPending(allIDs)\<close> the pending list is \<open>allIDs\<close> without the completed IDs (order
  and repetitions kept), the completed and the failed list are unchanged, and
  \<open>pending \<union> completed\<close>, as ID sets, is the listing's ID set together with the completed
  IDs; it is the listing's ID set exactly when every completed ID is in the listing.
\<close>

theorem C4_setPending_post:
  "pending (setPending d allIDs) = filter (\<lambda>i. i \<notin> completed_ids d) allIDs
   \<and> completed (setPending d allIDs) = completed d
   \<and> failed (setPending d allIDs) = failed d
   \<and> set (pending (setPending d allIDs)) \<union> completed_ids (setPending d allIDs)
       = set allIDs \<union> completed_ids d
   \<and> (set (pending (setPending d allIDs)) \<union> completed_ids (setPending d allIDs) = set allIDs
       \<longleftrightarrow> completed_ids d \<subseteq> set allIDs)"
proof -
  have p: "pending (setPending d allIDs) = filter (\<lambda>i. i \<notin> completed_ids d) allIDs"
    by (simp add: setPending_def isCompleted_iff)
  have u: "set (pending (setPending d allIDs)) \<union> completed_ids (setPending d allIDs)
       = set allIDs \<union> completed_ids d"
    unfolding p by auto
  have e: "(set allIDs \<union> completed_ids d = set allIDs) \<longleftrightarrow> completed_ids d \<subseteq> set allIDs"
    by auto
  show ?thesis using p u e by (simp add: setPending_def)
qed

theorem C4_setPending_post_witness:
  "completed_ids \<lparr>completed = [Success ''1'' ''ABC'' ''X'' ''f.pdf'' None 3], failed = [], pending = []\<rparr>
     \<subseteq> set [''1'', ''2'']
   \<and> pending (setPending
        \<lparr>completed = [Success ''1'' ''ABC'' ''X'' ''f.pdf'' None 3], failed = [], pending = []\<rparr>
        [''1'', ''2'']) = [''2'']
   \<and> set (pending (setPending
        \<lparr>completed = [Success ''1'' ''ABC'' ''X'' ''f.pdf'' None 3], failed = [], pending = []\<rparr>
        [''1'', ''2'']))
     \<union> completed_ids (setPending
        \<lparr>completed = [Success ''1'' ''ABC'' ''X'' ''f.pdf'' None 3], failed = [], pending = []\<rparr>
        [''1'', ''2'']) = set [''1'', ''2'']"
  using C4_setPending_post
    [of "\<lparr>completed = [Success ''1'' ''ABC'' ''X'' ''f.pdf'' None 3], failed = [], pending = []\<rparr>"
        "[''1'', ''2'']"]
  by (simp add: completed_ids_def)

section \<open>The retry contract of the transport\<close>

lemma retry_log_Suc:
  "retry_log u d a (Suc k) = [HttpGet u, Sleep (d * a)] @ retry_log u d (Suc a) k"
proof -
  have "[a..<a + Suc k] = a # [Suc a..<Suc a + k]"
    using upt_conv_Cons [of a "a + Suc k"] by simp
  then show ?thesis by (simp add: retry_log_def)
qed

lemma successive_calls_length [simp]: "length (successive_calls E u opts n w) = n"
  by (induction n arbitrary: w) (auto split: prod.splits)

lemma fetch_from_success:
  "successive_calls E u opts (Suc k) (world s) = map Inl es @ [Inr r] \<Longrightarrow> a + k \<le> retries \<Longrightarrow>
   fetchWithRetry_from E C u opts retries a s =
     (Inr (Some r), s\<lparr>world := world_after E u opts (Suc k) (world s),
                      log := log s @ retry_log u (retryDelay C) a k\<rparr>)"
proof (induction k arbitrary: a s es)
  case 0
  then show ?case
    by (subst fetchWithRetry_from.simps) (auto simp: retry_log_def split: prod.splits)
next
  case (Suc k)
  obtain r0 w0 where g: "httpGet E u opts (world s) = (r0, w0)"
    by (cases "httpGet E u opts (world s)")
  from Suc.prems(1) g have eq: "r0 # successive_calls E u opts (Suc k) w0 = map Inl es @ [Inr r]"
    by simp
  then obtain e es' where es: "es = e # es'" and r0: "r0 = Inl e"
    and rest: "successive_calls E u opts (Suc k) w0 = map Inl es' @ [Inr r]"
    by (cases es) (auto split: prod.splits)
  let ?s' = "s\<lparr>world := w0, log := log s @ [HttpGet u, Sleep (retryDelay C * a)]\<rparr>"
  have "fetchWithRetry_from E C u opts retries (Suc a) ?s' =
     (Inr (Some r), ?s'\<lparr>world := world_after E u opts (Suc k) (world ?s'),
                      log := log ?s' @ retry_log u (retryDelay C) (Suc a) k\<rparr>)"
    using Suc.IH [of ?s' es' "Suc a"] rest Suc.prems(2) by simp
  moreover have "fetchWithRetry_from E C u opts retries a s =
      fetchWithRetry_from E C u opts retries (Suc a) ?s'"
    using Suc.prems(2) g r0 by (simp add: fetchWithRetry_from.simps [of E C u opts retries a s])
  ultimately show ?case using g by (simp add: retry_log_Suc)
qed

lemma fetch_from_exhaust:
  "successive_calls E u opts (Suc k) (world s) = map Inl es @ [Inl e] \<Longrightarrow> a + k = retries \<Longrightarrow>
   fetchWithRetry_from E C u opts retries a s =
     (Inl e, s\<lparr>world := world_after E u opts (Suc k) (world s),
                      log := log s @ retry_log u (retryDelay C) a k\<rparr>)"
proof (induction k arbitrary: a s es)
  case 0
  then show ?case
    by (subst fetchWithRetry_from.simps) (auto simp: retry_log_def split: prod.splits)
next
  case (Suc k)
  obtain r0 w0 where g: "httpGet E u opts (world s) = (r0, w0)"
    by (cases "httpGet E u opts (world s)")
  from Suc.prems(1) g have eq: "r0 # successive_calls E u opts (Suc k) w0 = map Inl es @ [Inl e]"
    by simp
  then obtain e0 es' where es: "es = e0 # es'" and r0: "r0 = Inl e0"
    and rest: "successive_calls E u opts (Suc k) w0 = map Inl es' @ [Inl e]"
    by (cases es) (auto split: prod.splits)
  let ?s' = "s\<lparr>world := w0, log := log s @ [HttpGet u, Sleep (retryDelay C * a)]\<rparr>"
  have "fetchWithRetry_from E C u opts retries (Suc a) ?s' =
     (Inl e, ?s'\<lparr>world := world_after E u opts (Suc k) (world ?s'),
                      log := log ?s' @ retry_log u (retryDelay C) (Suc a) k\<rparr>)"
    using Suc.IH [of ?s' es' "Suc a"] rest Suc.prems(2) by simp
  moreover have "fetchWithRetry_from E C u opts retries a s =
      fetchWithRetry_from E C u opts retries (Suc a) ?s'"
    using Suc.prems(2) g r0 by (simp add: fetchWithRetry_from.simps [of E C u opts retries a s])
  ultimately show ?case using g by (simp add: retry_log_Suc)
qed

lemma requests_append [simp]: "requests (xs @ ys) = requests xs @ requests ys"
  by (simp add: requests_def)

lemma pauses_append [simp]: "pauses (xs @ ys) = pauses xs @ pauses ys"
  by (simp add: pauses_def)

lemma requests_Cons [simp]:
  "requests (HttpGet u # evs) = u # requests evs"
  "requests (Sleep ms # evs) = requests evs"
  by (simp_all add: requests_def)

lemma pauses_Cons [simp]:
  "pauses (HttpGet u # evs) = pauses evs"
  "pauses (Sleep ms # evs) = ms # pauses evs"
  by (simp_all add: pauses_def)

lemma retry_log_0: "retry_log u d a 0 = [HttpGet u]"
  by (simp add: retry_log_def)

lemma requests_retry_log: "requests (retry_log u d a k) = replicate (Suc k) u"
  by (induction k arbitrary: a) (simp_all add: retry_log_Suc retry_log_0 requests_def)

lemma pauses_retry_log: "pauses (retry_log u d a k) = map (\<lambda>n. d * n) [a..<a + k]"
proof (induction k arbitrary: a)
  case 0
  then show ?case by (simp add: retry_log_0 pauses_def)
next
  case (Suc k)
  have "[a..<a + Suc k] = a # [Suc a..<Suc a + k]"
    using upt_conv_Cons [of a "a + Suc k"] by simp
  with Suc show ?case by (simp add: retry_log_Suc)
qed

text \<open>
  C5, amended: \<^verbatim>\<open>fetchWithRetry\<close> calls the client at most \<^verbatim>\<open>retryAttempts\<close> times.
  After the \<open>n\<close>-th failed call, when it is not the last, it pauses for
  \<^verbatim>\<open>retryDelay\<close> \<open>\<times> n\<close> and calls again; there is no pause before the first call and
  none after the last. When the first \<open>k\<close> calls fail and call \<open>k + 1\<close> succeeds, for
  \<open>k\<close> below \<^verbatim>\<open>retryAttempts\<close>, that response is returned; when all \<^verbatim>\<open>retryAttempts\<close>
  calls fail, the error of the last call is thrown.
\<close>

theorem C5_retry_contract:
  "(\<forall>k es r. k < retryAttempts C
        \<and> successive_calls E u opts (Suc k) (world s) = map Inl es @ [Inr r] \<longrightarrow>
        fst (fetchWithRetry E C u opts s) = Inr (Some r)
      \<and> log (snd (fetchWithRetry E C u opts s)) = log s @ retry_log u (retryDelay C) 1 k)
   \<and> (\<forall>es e. successive_calls E u opts (retryAttempts C) (world s) = map Inl es @ [Inl e] \<longrightarrow>
        fst (fetchWithRetry E C u opts s) = Inl e
      \<and> log (snd (fetchWithRetry E C u opts s))
          = log s @ retry_log u (retryDelay C) 1 (retryAttempts C - 1))
   \<and> (\<forall>k. requests (retry_log u (retryDelay C) 1 k) = replicate (Suc k) u
          \<and> pauses (retry_log u (retryDelay C) 1 k) = map (\<lambda>n. retryDelay C * n) [1..<Suc k])"
proof (intro conjI allI impI)
  fix k es r
  assume h: "k < retryAttempts C
        \<and> successive_calls E u opts (Suc k) (world s) = map Inl es @ [Inr r]"
  then have "1 + k \<le> retryAttempts C" by simp
  with h have eq: "fetchWithRetry E C u opts s =
     (Inr (Some r), s\<lparr>world := world_after E u opts (Suc k) (world s),
                      log := log s @ retry_log u (retryDelay C) 1 k\<rparr>)"
    unfolding fetchWithRetry_def using fetch_from_success [of E u opts k s es r 1] by blast
  show "fst (fetchWithRetry E C u opts s) = Inr (Some r)" by (simp add: eq)
  show "log (snd (fetchWithRetry E C u opts s)) = log s @ retry_log u (retryDelay C) 1 k"
    by (simp add: eq)
next
  fix es e
  assume h: "successive_calls E u opts (retryAttempts C) (world s) = map Inl es @ [Inl e]"
  then have "length (successive_calls E u opts (retryAttempts C) (world s)) = Suc (length es)"
    by simp
  then have n: "retryAttempts C = Suc (length es)" by simp
  with h have "successive_calls E u opts (Suc (length es)) (world s) = map Inl es @ [Inl e]"
    by simp
  then have eq: "fetchWithRetry E C u opts s =
     (Inl e, s\<lparr>world := world_after E u opts (Suc (length es)) (world s),
                      log := log s @ retry_log u (retryDelay C) 1 (length es)\<rparr>)"
    unfolding fetchWithRetry_def
    using fetch_from_exhaust [of E u opts "length es" s es e 1 "retryAttempts C"] n by simp
  show "fst (fetchWithRetry E C u opts s) = Inl e" by (simp add: eq)
  show "log (snd (fetchWithRetry E C u opts s))
          = log s @ retry_log u (retryDelay C) 1 (retryAttempts C - 1)"
    by (simp add: eq n)
next
  fix k
  show "requests (retry_log u (retryDelay C) 1 k) = replicate (Suc k) u"
    by (rule requests_retry_log)
  show "pauses (retry_log u (retryDelay C) 1 k) = map (\<lambda>n. retryDelay C * n) [1..<Suc k]"
    using pauses_retry_log [of u "retryDelay C" 1 k] by simp
qed

theorem C5_retry_contract_witness:
  "(2::nat) < retryAttempts sample_config
   \<and> successive_calls (disk_env (flaky_server 2 ''page'') sample_terms (\<lambda>h. Inr [])) ''u''
        no_options (Suc 2) (world fresh_wstate)
      = map Inl [Error ''timeout of 30000ms exceeded'', Error ''timeout of 30000ms exceeded'']
          @ [Inr \<lparr>data = ''page'', content_disposition = None\<rparr>]
   \<and> fst (fetchWithRetry (disk_env (flaky_server 2 ''page'') sample_terms (\<lambda>h. Inr []))
            sample_config ''u'' no_options fresh_wstate)
      = Inr (Some \<lparr>data = ''page'', content_disposition = None\<rparr>)
   \<and> log (snd (fetchWithRetry (disk_env (flaky_server 2 ''page'') sample_terms (\<lambda>h. Inr []))
            sample_config ''u'' no_options fresh_wstate))
      = [HttpGet ''u'', Sleep 2000, HttpGet ''u'', Sleep 4000, HttpGet ''u'']
   \<and> successive_calls (disk_env (flaky_server 9 ''page'') sample_terms (\<lambda>h. Inr [])) ''u''
        no_options (retryAttempts sample_config) (world fresh_wstate)
      = map Inl [Error ''timeout of 30000ms exceeded'', Error ''timeout of 30000ms exceeded'']
          @ [Inl (Error ''timeout of 30000ms exceeded'')]
   \<and> fst (fetchWithRetry (disk_env (flaky_server 9 ''page'') sample_terms (\<lambda>h. Inr []))
            sample_config ''u'' no_options fresh_wstate)
      = Inl (Error ''timeout of 30000ms exceeded'')
   \<and> log (snd (fetchWithRetry (disk_env (flaky_server 9 ''page'') sample_terms (\<lambda>h. Inr []))
            sample_config ''u'' no_options fresh_wstate))
      = [HttpGet ''u'', Sleep 2000, HttpGet ''u'', Sleep 4000, HttpGet ''u'']"
proof -
  let ?E = "disk_env (flaky_server 2 ''page'') sample_terms (\<lambda>h. Inr [])"
  let ?F = "disk_env (flaky_server 9 ''page'') sample_terms (\<lambda>h. Inr [])"
  have h1: "(2::nat) < retryAttempts sample_config"
    by (simp add: sample_config_def)
  have h2: "successive_calls ?E ''u'' no_options (Suc 2) (world fresh_wstate)
      = map Inl [Error ''timeout of 30000ms exceeded'', Error ''timeout of 30000ms exceeded'']
          @ [Inr \<lparr>data = ''page'', content_disposition = None\<rparr>]"
    by (simp add: numeral_2_eq_2 disk_env_def flaky_server_def fresh_wstate_def fresh_disk_def)
  have h3: "successive_calls ?F ''u'' no_options (retryAttempts sample_config) (world fresh_wstate)
      = map Inl [Error ''timeout of 30000ms exceeded'', Error ''timeout of 30000ms exceeded'']
          @ [Inl (Error ''timeout of 30000ms exceeded'')]"
    by (simp add: numeral_3_eq_3 sample_config_def disk_env_def flaky_server_def
        fresh_wstate_def fresh_disk_def)
  have l: "log fresh_wstate @ retry_log ''u'' (retryDelay sample_config) 1 2
      = [HttpGet ''u'', Sleep 2000, HttpGet ''u'', Sleep 4000, HttpGet ''u'']"
    "log fresh_wstate @ retry_log ''u'' (retryDelay sample_config) 1 (retryAttempts sample_config - 1)
      = [HttpGet ''u'', Sleep 2000, HttpGet ''u'', Sleep 4000, HttpGet ''u'']"
    by (simp_all add: retry_log_def fresh_wstate_def sample_config_def upt_rec numeral_2_eq_2)
  from h1 h2 C5_retry_contract [of sample_config ?E "''u''" no_options fresh_wstate]
  have a: "fst (fetchWithRetry ?E sample_config ''u'' no_options fresh_wstate)
          = Inr (Some \<lparr>data = ''page'', content_disposition = None\<rparr>)
      \<and> log (snd (fetchWithRetry ?E sample_config ''u'' no_options fresh_wstate))
          = log fresh_wstate @ retry_log ''u'' (retryDelay sample_config) 1 2"
    by blast
  from h3 C5_retry_contract [of sample_config ?F "''u''" no_options fresh_wstate]
  have b: "fst (fetchWithRetry ?F sample_config ''u'' no_options fresh_wstate)
          = Inl (Error ''timeout of 30000ms exceeded'')
      \<and> log (snd (fetchWithRetry ?F sample_config ''u'' no_options fresh_wstate))
          = log fresh_wstate @ retry_log ''u'' (retryDelay sample_config) 1
              (retryAttempts sample_config - 1)"
    by blast
  from h1 h2 h3 l a b show ?thesis by simp
qed

text \<open>
  C5, as stated, fails: the pause that precedes attempt \<open>n\<close> is \<^verbatim>\<open>retryDelay\<close>
  \<open>\<times> (n - 1)\<close>, since the factor is the number of the attempt that has just failed.
  With three attempts that all time out the log is request, pause 2000, request,
  pause 4000, request: attempt 2 follows a pause of 2000, not of 4000.
\<close>

theorem C5_pause_counterexample:
  "\<not> (\<forall>n. 1 \<le> n \<and> n \<le> retryAttempts sample_config \<longrightarrow>
        pause_before (log (snd (fetchWithRetry
            (disk_env (flaky_server 9 ''page'') sample_terms (\<lambda>h. Inr []))
            sample_config ''u'' no_options fresh_wstate))) n None
        = Some (retryDelay sample_config * n))"
proof
  assume a: "\<forall>n. 1 \<le> n \<and> n \<le> retryAttempts sample_config \<longrightarrow>
        pause_before (log (snd (fetchWithRetry
            (disk_env (flaky_server 9 ''page'') sample_terms (\<lambda>h. Inr []))
            sample_config ''u'' no_options fresh_wstate))) n None
        = Some (retryDelay sample_config * n)"
  have "pause_before (log (snd (fetchWithRetry
            (disk_env (flaky_server 9 ''page'') sample_terms (\<lambda>h. Inr []))
            sample_config ''u'' no_options fresh_wstate))) 2 None = Some 2000"
    by code_simp
  moreover have "retryDelay sample_config * 2 = 4000" "(2::nat) \<le> retryAttempts sample_config"
    by (simp_all add: sample_config_def)
  ultimately show False using a [rule_format, of 2] by simp
qed

section \<open>The Download Worker\<close>

lemma store_file_result:
  "store_file E C t ti fr s = (Inr result, s1) \<Longrightarrow>
   result = Success t (symbol ti) (issuer ti) (deriveFilename (content_disposition fr) (symbol ti) t)
              (fileDate ti) (length (data fr))
   \<and> writeFileSync E (path_join (downloadDir C) (deriveFilename (content_disposition fr) (symbol ti) t))
        (data fr) (world s) = (Inr (), world s1)"
  by (auto simp: store_file_def Let_def split: prod.splits sum.splits)

lemma examine_transID: "examine E C t html s = (Inr result, s1) \<Longrightarrow> transID result = t"
  by (auto simp: examine_def split: prod.splits sum.splits option.splits dest!: store_file_result)

lemma downloadWarrant_try_transID:
  "downloadWarrant_try E C t s = (Inr result, s1) \<Longrightarrow> transID result = t"
  by (auto simp: downloadWarrant_try_def split: prod.splits sum.splits dest: examine_transID)

lemma downloadWarrant_returns:
  "\<exists>result s1. downloadWarrant E C t s = (Inr result, s1) \<and> transID result = t"
proof (cases "downloadWarrant_try E C t s")
  case (Pair r s1)
  then show ?thesis
    by (cases r) (auto simp: downloadWarrant_def dest: downloadWarrant_try_transID)
qed

lemma worker_detail_raises:
  assumes "downloadWarrant E C t s = (Inr result, s1)"
  shows "(\<forall>e w. cache_get E C (''detail_'' @ t) (world s) = (Inl e, w) \<longrightarrow>
            result = Failure t (message e))"
    and "(\<forall>html w e s2. cache_get E C (''detail_'' @ t) (world s) = (Inr html, w) \<and> falsy html
            \<and> fetchWithRetry E C (detailURL t) \<lparr>referer = Some (getListUrl C), arraybuffer = False\<rparr>
                (s\<lparr>world := w, log := log s @ [Sleep (requestDelay C)]\<rparr>) = (Inl e, s2) \<longrightarrow>
            result = Failure t (message e))"
    and "(\<forall>html w r s2 e w2. cache_get E C (''detail_'' @ t) (world s) = (Inr html, w) \<and> falsy html
            \<and> fetchWithRetry E C (detailURL t) \<lparr>referer = Some (getListUrl C), arraybuffer = False\<rparr>
                (s\<lparr>world := w, log := log s @ [Sleep (requestDelay C)]\<rparr>) = (Inr (Some r), s2)
            \<and> cache_set E C (''detail_'' @ t) (data r) (world s2) = (Inl e, w2) \<longrightarrow>
            result = Failure t (message e))"
  using assms
  by (auto simp: downloadWarrant_def downloadWarrant_try_def detail_html_def
      split: prod.splits sum.splits)

lemma worker_examine_raises:
  assumes "downloadWarrant E C t s = (Inr result, s1)"
    and "detail_html E C t s = (Inr html, s2)"
  shows "(\<forall>e. extractTermsURL E html = Inl e \<longrightarrow> result = Failure t (message e))"
    and "extractTermsURL E html = Inr None \<longrightarrow> result = Failure t ''Terms file not found''"
    and "(\<forall>ti e s3. extractTermsURL E html = Inr (Some ti)
            \<and> fetchWithRetry E C (url ti) \<lparr>referer = Some (detailURL t), arraybuffer = True\<rparr> s2
                = (Inl e, s3) \<longrightarrow>
            result = Failure t (message e))"
    and "(\<forall>ti fr s3 e w4. extractTermsURL E html = Inr (Some ti)
            \<and> fetchWithRetry E C (url ti) \<lparr>referer = Some (detailURL t), arraybuffer = True\<rparr> s2
                = (Inr (Some fr), s3)
            \<and> writeFileSync E
                (path_join (downloadDir C) (deriveFilename (content_disposition fr) (symbol ti) t))
                (data fr) (world s3) = (Inl e, w4) \<longrightarrow>
            result = Failure t (message e))"
    and "(\<forall>ti fr s3 u w4. extractTermsURL E html = Inr (Some ti)
            \<and> fetchWithRetry E C (url ti) \<lparr>referer = Some (detailURL t), arraybuffer = True\<rparr> s2
                = (Inr (Some fr), s3)
            \<and> writeFileSync E
                (path_join (downloadDir C) (deriveFilename (content_disposition fr) (symbol ti) t))
                (data fr) (world s3) = (Inr u, w4) \<longrightarrow>
            result = Success t (symbol ti) (issuer ti)
                       (deriveFilename (content_disposition fr) (symbol ti) t) (fileDate ti)
                       (length (data fr)))"
  using assms
  by (auto simp: downloadWarrant_def downloadWarrant_try_def examine_def store_file_def Let_def
      split: prod.splits sum.splits)

text \<open>
  C7: for every item ID and every behaviour of the transport, the cache and the file
  system, \<^verbatim>\<open>downloadWarrant\<close> returns one outcome, for that ID, and no exception leaves
  it. When a step throws, the outcome is the failure with the message of that error as
  its reason: this holds of the \<^verbatim>\<open>try\<close> block as a whole (and the bar has then ticked
  once), and of each step by itself, namely the cache read, the request for the detail
  page, the cache write, the examination of the page, the request for the file and the
  write of the file. When no step throws, the outcome is the failure
  \<^verbatim>\<open>Terms file not found\<close> for a page without a terms link and the success outcome
  otherwise. A transport error that a retry of \<^verbatim>\<open>fetchWithRetry\<close> absorbs does not leave
  that step.
\<close>

theorem C7_worker_total:
  "\<exists>result s1. downloadWarrant E C t s = (Inr result, s1) \<and> transID result = t
     \<and> (\<forall>e s2. downloadWarrant_try E C t s = (Inl e, s2) \<longrightarrow>
           result = Failure t (message e) \<and> s1 = s2\<lparr>bar := bar s2 + 1\<rparr>)
     \<and> (\<forall>e w. cache_get E C (''detail_'' @ t) (world s) = (Inl e, w) \<longrightarrow>
           result = Failure t (message e))
     \<and> (\<forall>html w e s2. cache_get E C (''detail_'' @ t) (world s) = (Inr html, w) \<and> falsy html
            \<and> fetchWithRetry E C (detailURL t) \<lparr>referer = Some (getListUrl C), arraybuffer = False\<rparr>
                (s\<lparr>world := w, log := log s @ [Sleep (requestDelay C)]\<rparr>) = (Inl e, s2) \<longrightarrow>
           result = Failure t (message e))
     \<and> (\<forall>html w r s2 e w2. cache_get E C (''detail_'' @ t) (world s) = (Inr html, w) \<and> falsy html
            \<and> fetchWithRetry E C (detailURL t) \<lparr>referer = Some (getListUrl C), arraybuffer = False\<rparr>
                (s\<lparr>world := w, log := log s @ [Sleep (requestDelay C)]\<rparr>) = (Inr (Some r), s2)
            \<and> cache_set E C (''detail_'' @ t) (data r) (world s2) = (Inl e, w2) \<longrightarrow>
           result = Failure t (message e))
     \<and> (\<forall>html s2. detail_html E C t s = (Inr html, s2) \<longrightarrow>
           (\<forall>e. extractTermsURL E html = Inl e \<longrightarrow> result = Failure t (message e))
         \<and> (extractTermsURL E html = Inr None \<longrightarrow> result = Failure t ''Terms file not found'')
         \<and> (\<forall>ti e s3. extractTermsURL E html = Inr (Some ti)
               \<and> fetchWithRetry E C (url ti) \<lparr>referer = Some (detailURL t), arraybuffer = True\<rparr> s2
                   = (Inl e, s3) \<longrightarrow>
              result = Failure t (message e))
         \<and> (\<forall>ti fr s3 e w4. extractTermsURL E html = Inr (Some ti)
               \<and> fetchWithRetry E C (url ti) \<lparr>referer = Some (detailURL t), arraybuffer = True\<rparr> s2
                   = (Inr (Some fr), s3)
               \<and> writeFileSync E
                   (path_join (downloadDir C) (deriveFilename (content_disposition fr) (symbol ti) t))
                   (data fr) (world s3) = (Inl e, w4) \<longrightarrow>
              result = Failure t (message e))
         \<and> (\<forall>ti fr s3 u w4. extractTermsURL E html = Inr (Some ti)
               \<and> fetchWithRetry E C (url ti) \<lparr>referer = Some (detailURL t), arraybuffer = True\<rparr> s2
                   = (Inr (Some fr), s3)
               \<and> writeFileSync E
                   (path_join (downloadDir C) (deriveFilename (content_disposition fr) (symbol ti) t))
                   (data fr) (world s3) = (Inr u, w4) \<longrightarrow>
              result = Success t (symbol ti) (issuer ti)
                         (deriveFilename (content_disposition fr) (symbol ti) t) (fileDate ti)
                         (length (data fr))))"
proof -
  obtain result s1 where r: "downloadWarrant E C t s = (Inr result, s1)" "transID result = t"
    using downloadWarrant_returns by blast
  have a: "\<forall>e s2. downloadWarrant_try E C t s = (Inl e, s2) \<longrightarrow>
           result = Failure t (message e) \<and> s1 = s2\<lparr>bar := bar s2 + 1\<rparr>"
    using r(1) by (auto simp: downloadWarrant_def)
  note d = worker_detail_raises [OF r(1)]
  have x: "\<forall>html s2. detail_html E C t s = (Inr html, s2) \<longrightarrow>
           (\<forall>e. extractTermsURL E html = Inl e \<longrightarrow> result = Failure t (message e))
         \<and> (extractTermsURL E html = Inr None \<longrightarrow> result = Failure t ''Terms file not found'')
         \<and> (\<forall>ti e s3. extractTermsURL E html = Inr (Some ti)
               \<and> fetchWithRetry E C (url ti) \<lparr>referer = Some (detailURL t), arraybuffer = True\<rparr> s2
                   = (Inl e, s3) \<longrightarrow>
              result = Failure t (message e))
         \<and> (\<forall>ti fr s3 e w4. extractTermsURL E html = Inr (Some ti)
               \<and> fetchWithRetry E C (url ti) \<lparr>referer = Some (detailURL t), arraybuffer = True\<rparr> s2
                   = (Inr (Some fr), s3)
               \<and> writeFileSync E
                   (path_join (downloadDir C) (deriveFilename (content_disposition fr) (symbol ti) t))
                   (data fr) (world s3) = (Inl e, w4) \<longrightarrow>
              result = Failure t (message e))
         \<and> (\<forall>ti fr s3 u w4. extractTermsURL E html = Inr (Some ti)
               \<and> fetchWithRetry E C (url ti) \<lparr>referer = Some (detailURL t), arraybuffer = True\<rparr> s2
                   = (Inr (Some fr), s3)
               \<and> writeFileSync E
                   (path_join (downloadDir C) (deriveFilename (content_disposition fr) (symbol ti) t))
                   (data fr) (world s3) = (Inr u, w4) \<longrightarrow>
              result = Success t (symbol ti) (issuer ti)
                         (deriveFilename (content_disposition fr) (symbol ti) t) (fileDate ti)
                         (length (data fr)))"
  proof (intro allI impI)
    fix html s2
    assume h: "detail_html E C t s = (Inr html, s2)"
    from worker_examine_raises [OF r(1) h]
    show "(\<forall>e. extractTermsURL E html = Inl e \<longrightarrow> result = Failure t (message e))
         \<and> (extractTermsURL E html = Inr None \<longrightarrow> result = Failure t ''Terms file not found'')
         \<and> (\<forall>ti e s3. extractTermsURL E html = Inr (Some ti)
               \<and> fetchWithRetry E C (url ti) \<lparr>referer = Some (detailURL t), arraybuffer = True\<rparr> s2
                   = (Inl e, s3) \<longrightarrow>
              result = Failure t (message e))
         \<and> (\<forall>ti fr s3 e w4. extractTermsURL E html = Inr (Some ti)
               \<and> fetchWithRetry E C (url ti) \<lparr>referer = Some (detailURL t), arraybuffer = True\<rparr> s2
                   = (Inr (Some fr), s3)
               \<and> writeFileSync E
                   (path_join (downloadDir C) (deriveFilename (content_disposition fr) (symbol ti) t))
                   (data fr) (world s3) = (Inl e, w4) \<longrightarrow>
              result = Failure t (message e))
         \<and> (\<forall>ti fr s3 u w4. extractTermsURL E html = Inr (Some ti)
               \<and> fetchWithRetry E C (url ti) \<lparr>referer = Some (detailURL t), arraybuffer = True\<rparr> s2
                   = (Inr (Some fr), s3)
               \<and> writeFileSync E
                   (path_join (downloadDir C) (deriveFilename (content_disposition fr) (symbol ti) t))
                   (data fr) (world s3) = (Inr u, w4) \<longrightarrow>
              result = Success t (symbol ti) (issuer ti)
                         (deriveFilename (content_disposition fr) (symbol ti) t) (fileDate ti)
                         (length (data fr)))"
      by (intro conjI)
  qed
  show ?thesis
    by (intro exI [of _ result] exI [of _ s1] conjI r a d x)
qed

theorem C7_worker_total_witness:
  "fst (downloadWarrant_try (disk_env (flaky_server 9 ''page'') sample_terms (\<lambda>h. Inr []))
          sample_config ''123'' fresh_wstate) = Inl (Error ''timeout of 30000ms exceeded'')
   \<and> fst (downloadWarrant (disk_env (flaky_server 9 ''page'') sample_terms (\<lambda>h. Inr []))
          sample_config ''123'' fresh_wstate)
       = Inr (Failure ''123'' ''timeout of 30000ms exceeded'')
   \<and> fst (cache_get locked_cache_env sample_config (''detail_'' @ ''123'') (world fresh_wstate))
       = Inl (Error ''EACCES: permission denied'')
   \<and> fst (downloadWarrant locked_cache_env sample_config ''123'' fresh_wstate)
       = Inr (Failure ''123'' ''EACCES: permission denied'')
   \<and> fst (downloadWarrant (disk_env (flaky_server 0 ''<html>page</html>'') parse_error_terms (\<lambda>h. Inr []))
          sample_config ''123'' fresh_wstate)
       = Inr (Failure ''123'' ''Unmatched selector'')
   \<and> fst (downloadWarrant (disk_env no_file_server sample_terms (\<lambda>h. Inr []))
          sample_config ''123'' fresh_wstate)
       = Inr (Failure ''123'' ''Request failed with status code 404'')
   \<and> fst (downloadWarrant readonly_folder_env sample_config ''123'' fresh_wstate)
       = Inr (Failure ''123'' ''EACCES: permission denied'')
   \<and> fst (downloadWarrant full_disk_env sample_config ''123'' fresh_wstate)
       = Inr (Failure ''123'' ''ENOSPC: no space left on device'')"
proof -
  let ?E = "disk_env (flaky_server 9 ''page'') sample_terms (\<lambda>h. Inr [])"
  have h: "fst (downloadWarrant_try ?E sample_config ''123'' fresh_wstate)
             = Inl (Error ''timeout of 30000ms exceeded'')"
    by code_simp
  then have h': "downloadWarrant_try ?E sample_config ''123'' fresh_wstate
     = (Inl (Error ''timeout of 30000ms exceeded''),
        snd (downloadWarrant_try ?E sample_config ''123'' fresh_wstate))"
    by (metis prod.collapse)
  from C7_worker_total [of ?E sample_config "''123''" fresh_wstate] h'
  have a: "fst (downloadWarrant ?E sample_config ''123'' fresh_wstate)
       = Inr (Failure ''123'' ''timeout of 30000ms exceeded'')"
    by (elim exE conjE) simp
  have g: "fst (cache_get locked_cache_env sample_config (''detail_'' @ ''123'') (world fresh_wstate))
       = Inl (Error ''EACCES: permission denied'')"
    by (simp add: cache_get_def cache_has_def locked_cache_env_def)
  then have g': "cache_get locked_cache_env sample_config (''detail_'' @ ''123'') (world fresh_wstate)
     = (Inl (Error ''EACCES: permission denied''),
        snd (cache_get locked_cache_env sample_config (''detail_'' @ ''123'') (world fresh_wstate)))"
    by (metis prod.collapse)
  from C7_worker_total [of locked_cache_env sample_config "''123''" fresh_wstate] g'
  have b: "fst (downloadWarrant locked_cache_env sample_config ''123'' fresh_wstate)
       = Inr (Failure ''123'' ''EACCES: permission denied'')"
    by (elim exE conjE) simp
  let ?P = "disk_env (flaky_server 0 ''<html>page</html>'') parse_error_terms (\<lambda>h. Inr [])"
  have "fst (detail_html ?P sample_config ''123'' fresh_wstate) = Inr ''<html>page</html>''"
    by code_simp
  then have p1: "detail_html ?P sample_config ''123'' fresh_wstate
      = (Inr ''<html>page</html>'', snd (detail_html ?P sample_config ''123'' fresh_wstate))"
    by (metis prod.collapse)
  have p2: "extractTermsURL ?P ''<html>page</html>'' = Inl (Error ''Unmatched selector'')"
    by (simp add: disk_env_def parse_error_terms_def)
  from C7_worker_total [of ?P sample_config "''123''" fresh_wstate] p1 p2
  have c: "fst (downloadWarrant ?P sample_config ''123'' fresh_wstate)
       = Inr (Failure ''123'' ''Unmatched selector'')"
    by (elim exE conjE) simp
  let ?X = "\<lambda>E result. \<forall>html s2. detail_html E sample_config ''123'' fresh_wstate = (Inr html, s2) \<longrightarrow>
           (\<forall>e. extractTermsURL E html = Inl e \<longrightarrow> result = Failure ''123'' (message e))
         \<and> (extractTermsURL E html = Inr None \<longrightarrow> result = Failure ''123'' ''Terms file not found'')
         \<and> (\<forall>ti e s3. extractTermsURL E html = Inr (Some ti)
               \<and> fetchWithRetry E sample_config (url ti)
                    \<lparr>referer = Some (detailURL ''123''), arraybuffer = True\<rparr> s2 = (Inl e, s3) \<longrightarrow>
              result = Failure ''123'' (message e))
         \<and> (\<forall>ti fr s3 e w4. extractTermsURL E html = Inr (Some ti)
               \<and> fetchWithRetry E sample_config (url ti)
                    \<lparr>referer = Some (detailURL ''123''), arraybuffer = True\<rparr> s2 = (Inr (Some fr), s3)
               \<and> writeFileSync E
                   (path_join (downloadDir sample_config)
                      (deriveFilename (content_disposition fr) (symbol ti) ''123''))
                   (data fr) (world s3) = (Inl e, w4) \<longrightarrow>
              result = Failure ''123'' (message e))
         \<and> (\<forall>ti fr s3 u w4. extractTermsURL E html = Inr (Some ti)
               \<and> fetchWithRetry E sample_config (url ti)
                    \<lparr>referer = Some (detailURL ''123''), arraybuffer = True\<rparr> s2 = (Inr (Some fr), s3)
               \<and> writeFileSync E
                   (path_join (downloadDir sample_config)
                      (deriveFilename (content_disposition fr) (symbol ti) ''123''))
                   (data fr) (world s3) = (Inr u, w4) \<longrightarrow>
              result = Success ''123'' (symbol ti) (issuer ti)
                         (deriveFilename (content_disposition fr) (symbol ti) ''123'') (fileDate ti)
                         (length (data fr)))"
  let ?N = "disk_env no_file_server sample_terms (\<lambda>h. Inr [])"
  let ?ti = "\<lparr>url = ''https://market.sec.or.th/file'', issuer = ''Issuer'', symbol = ''ABC'',
               fileDate = None\<rparr>"
  have "fst (detail_html ?N sample_config ''123'' fresh_wstate) = Inr ''<html>page</html>''"
    by code_simp
  then have n1: "detail_html ?N sample_config ''123'' fresh_wstate
      = (Inr ''<html>page</html>'', snd (detail_html ?N sample_config ''123'' fresh_wstate))"
    by (metis prod.collapse)
  have n2: "extractTermsURL ?N ''<html>page</html>'' = Inr (Some ?ti)"
    by (simp add: disk_env_def sample_terms_def)
  have "fst (fetchWithRetry ?N sample_config (url ?ti)
                \<lparr>referer = Some (detailURL ''123''), arraybuffer = True\<rparr>
                (snd (detail_html ?N sample_config ''123'' fresh_wstate)))
          = Inl (Error ''Request failed with status code 404'')"
    by code_simp
  then have n3: "fetchWithRetry ?N sample_config (url ?ti)
                \<lparr>referer = Some (detailURL ''123''), arraybuffer = True\<rparr>
                (snd (detail_html ?N sample_config ''123'' fresh_wstate))
          = (Inl (Error ''Request failed with status code 404''),
             snd (fetchWithRetry ?N sample_config (url ?ti)
                \<lparr>referer = Some (detailURL ''123''), arraybuffer = True\<rparr>
                (snd (detail_html ?N sample_config ''123'' fresh_wstate))))"
    by (metis prod.collapse)
  from C7_worker_total [of ?N sample_config "''123''" fresh_wstate]
  obtain r4 s4 where r4: "downloadWarrant ?N sample_config ''123'' fresh_wstate = (Inr r4, s4)"
    and x4: "?X ?N r4"
    by (elim exE conjE) (rule that; assumption)
  from x4 [rule_format, OF n1, THEN conjunct2, THEN conjunct2, THEN conjunct1, rule_format,
      OF conjI [OF n2 n3]] r4
  have d: "fst (downloadWarrant ?N sample_config ''123'' fresh_wstate)
       = Inr (Failure ''123'' ''Request failed with status code 404'')"
    by simp
  let ?R = readonly_folder_env
  have "fst (detail_html ?R sample_config ''123'' fresh_wstate) = Inr ''<html>page</html>''"
    by code_simp
  then have o1: "detail_html ?R sample_config ''123'' fresh_wstate
      = (Inr ''<html>page</html>'', snd (detail_html ?R sample_config ''123'' fresh_wstate))"
    by (metis prod.collapse)
  have o2: "extractTermsURL ?R ''<html>page</html>'' = Inr (Some ?ti)"
    by (simp add: readonly_folder_env_def disk_env_def sample_terms_def)
  let ?fr = "\<lparr>data = ''<html>page</html>'', content_disposition = None\<rparr>"
  let ?s3 = "snd (fetchWithRetry ?R sample_config (url ?ti)
                \<lparr>referer = Some (detailURL ''123''), arraybuffer = True\<rparr>
                (snd (detail_html ?R sample_config ''123'' fresh_wstate)))"
  have "fst (fetchWithRetry ?R sample_config (url ?ti)
                \<lparr>referer = Some (detailURL ''123''), arraybuffer = True\<rparr>
                (snd (detail_html ?R sample_config ''123'' fresh_wstate)))
          = Inr (Some ?fr)"
    by code_simp
  then have o3: "fetchWithRetry ?R sample_config (url ?ti)
                \<lparr>referer = Some (detailURL ''123''), arraybuffer = True\<rparr>
                (snd (detail_html ?R sample_config ''123'' fresh_wstate))
          = (Inr (Some ?fr), ?s3)"
    by (metis prod.collapse)
  have o4: "writeFileSync ?R
                (path_join (downloadDir sample_config)
                   (deriveFilename (content_disposition ?fr) (symbol ?ti) ''123''))
                (data ?fr) (world ?s3)
          = (Inl (Error ''EACCES: permission denied''), world ?s3)"
    by (simp add: readonly_folder_env_def deriveFilename_def sanitize_def path_join_def
        sample_config_def)
  from C7_worker_total [of ?R sample_config "''123''" fresh_wstate]
  obtain r5 s5 where r5: "downloadWarrant ?R sample_config ''123'' fresh_wstate = (Inr r5, s5)"
    and x5: "?X ?R r5"
    by (elim exE conjE) (rule that; assumption)
  from x5 [rule_format, OF o1, THEN conjunct2, THEN conjunct2, THEN conjunct2, THEN conjunct1,
      rule_format, OF conjI [OF o2 conjI [OF o3 o4]]] r5
  have e: "fst (downloadWarrant ?R sample_config ''123'' fresh_wstate)
       = Inr (Failure ''123'' ''EACCES: permission denied'')"
    by simp
  let ?F = full_disk_env
  let ?dopts = "\<lparr>referer = Some (getListUrl sample_config), arraybuffer = False\<rparr>"
  let ?s0 = "fresh_wstate\<lparr>world := fresh_disk, log := log fresh_wstate @ [Sleep (requestDelay sample_config)]\<rparr>"
  have f1: "cache_get ?F sample_config (''detail_'' @ ''123'') (world fresh_wstate) = (Inr None, fresh_disk)"
    by (simp add: cache_get_def cache_has_def full_disk_env_def disk_env_def fresh_wstate_def
        fresh_disk_def)
  have f0: "falsy None" by simp
  have "fst (fetchWithRetry ?F sample_config (detailURL ''123'') ?dopts ?s0) = Inr (Some ?fr)"
    by code_simp
  then have f2: "fetchWithRetry ?F sample_config (detailURL ''123'') ?dopts ?s0
      = (Inr (Some ?fr), snd (fetchWithRetry ?F sample_config (detailURL ''123'') ?dopts ?s0))"
    by (metis prod.collapse)
  have f3: "cache_set ?F sample_config (''detail_'' @ ''123'') (data ?fr)
              (world (snd (fetchWithRetry ?F sample_config (detailURL ''123'') ?dopts ?s0)))
      = (Inl (Error ''ENOSPC: no space left on device''),
         world (snd (fetchWithRetry ?F sample_config (detailURL ''123'') ?dopts ?s0)))"
    by (simp add: cache_set_def full_disk_env_def)
  from C7_worker_total [of ?F sample_config "''123''" fresh_wstate]
  obtain r6 s6 where r6: "downloadWarrant ?F sample_config ''123'' fresh_wstate = (Inr r6, s6)"
    and x6: "\<forall>html w r s2 e w2. cache_get ?F sample_config (''detail_'' @ ''123'') (world fresh_wstate)
               = (Inr html, w) \<and> falsy html
            \<and> fetchWithRetry ?F sample_config (detailURL ''123'') ?dopts
                (fresh_wstate\<lparr>world := w, log := log fresh_wstate @ [Sleep (requestDelay sample_config)]\<rparr>)
               = (Inr (Some r), s2)
            \<and> cache_set ?F sample_config (''detail_'' @ ''123'') (data r) (world s2) = (Inl e, w2) \<longrightarrow>
           r6 = Failure ''123'' (message e)"
    by (elim exE conjE) (rule that; assumption)
  from x6 [rule_format, OF conjI [OF f1 conjI [OF f0 conjI [OF f2 f3]]]] r6
  have f: "fst (downloadWarrant ?F sample_config ''123'' fresh_wstate)
       = Inr (Failure ''123'' ''ENOSPC: no space left on device'')"
    by simp
  from h a g b c d e f show ?thesis by (intro conjI)
qed

lemma fetch_from_response:
  "fetchWithRetry_from E C u opts retries a s = (Inr (Some r), s1) \<Longrightarrow>
   \<exists>w w'. httpGet E u opts w = (Inr r, w')"
proof (induction E C u opts retries a s rule: fetchWithRetry_from.induct)
  case (1 E C u opts retries attempt s)
  show ?case
  proof (cases "httpGet E u opts (world s)")
    case (Pair r0 w0)
    show ?thesis
    proof (cases r0)
      case (Inl e)
      with 1 Pair show ?thesis
        by (simp add: fetchWithRetry_from.simps [of E C u opts retries attempt s]
            split: if_splits)
    next
      case (Inr r')
      with 1(2) Pair show ?thesis
        by (auto simp: fetchWithRetry_from.simps [of E C u opts retries attempt s]
            split: if_splits)
    qed
  qed
qed

lemma deriveFilename_None:
  "deriveFilename None sy t = sanitize sy @ ''_Terms_'' @ t @ ''.pdf''"
  by (simp add: deriveFilename_def)

lemma sanitize_explicit:
  "sanitize k
     = map (\<lambda>c. if c \<in> set (''abcdefghijklmnopqrstuvwxyz'' @ ''ABCDEFGHIJKLMNOPQRSTUVWXYZ''
                               @ ''0123456789'')
                then c else CHR ''_'') k"
  unfolding sanitize_def alphanumeric_def ..

text \<open>
  C9: for symbol \<^verbatim>\<open>ABC\<close> and item ID \<^verbatim>\<open>123\<close> the synthesized name is
  \<^verbatim>\<open>ABC_Terms_123.pdf\<close>. When the file response has no \<^verbatim>\<open>content-disposition\<close> header
  and the file is stored, the outcome carries the name made of the symbol in which every
  character other than a letter \<^verbatim>\<open>a\<close> to \<^verbatim>\<open>z\<close>, \<^verbatim>\<open>A\<close> to \<^verbatim>\<open>Z\<close> or a digit is replaced
  by an underscore, then \<^verbatim>\<open>_Terms_\<close>, the item ID and \<^verbatim>\<open>.pdf\<close>, and the write that
  succeeded was to that name in the download folder. Hence every successful download over
  a transport whose responses have no such header has a name of that form.
\<close>

theorem C9_filename_fallback:
  "deriveFilename None ''ABC'' ''123'' = ''ABC_Terms_123.pdf''
   \<and> (\<forall>result s1. content_disposition fileResponse = None
          \<and> store_file E C t ti fileResponse s = (Inr result, s1) \<longrightarrow>
        result = Success t (symbol ti) (issuer ti)
                   (map (\<lambda>c. if c \<in> set (''abcdefghijklmnopqrstuvwxyz''
                                           @ ''ABCDEFGHIJKLMNOPQRSTUVWXYZ'' @ ''0123456789'')
                             then c else CHR ''_'') (symbol ti)
                      @ ''_Terms_'' @ t @ ''.pdf'')
                   (fileDate ti) (length (data fileResponse))
        \<and> writeFileSync E
             (path_join (downloadDir C)
                (map (\<lambda>c. if c \<in> set (''abcdefghijklmnopqrstuvwxyz''
                                        @ ''ABCDEFGHIJKLMNOPQRSTUVWXYZ'' @ ''0123456789'')
                          then c else CHR ''_'') (symbol ti)
                   @ ''_Terms_'' @ t @ ''.pdf''))
             (data fileResponse) (world s) = (Inr (), world s1))
   \<and> (\<forall>t' sy iss fn fd sz s1.
         (\<forall>u opts w r w'. httpGet E u opts w = (Inr r, w') \<longrightarrow> content_disposition r = None)
          \<and> downloadWarrant E C t s = (Inr (Success t' sy iss fn fd sz), s1) \<longrightarrow>
        fn = map (\<lambda>c. if c \<in> set (''abcdefghijklmnopqrstuvwxyz''
                                    @ ''ABCDEFGHIJKLMNOPQRSTUVWXYZ'' @ ''0123456789'')
                      then c else CHR ''_'') sy
               @ ''_Terms_'' @ t @ ''.pdf'')"
proof (intro conjI allI impI)
  show "deriveFilename None ''ABC'' ''123'' = ''ABC_Terms_123.pdf''"
    by (simp add: deriveFilename_None sanitize_def alphanumeric_def)
next
  fix result s1
  assume h: "content_disposition fileResponse = None
          \<and> store_file E C t ti fileResponse s = (Inr result, s1)"
  with store_file_result [of E C t ti fileResponse s result s1]
  show "result = Success t (symbol ti) (issuer ti)
                   (map (\<lambda>c. if c \<in> set (''abcdefghijklmnopqrstuvwxyz''
                                           @ ''ABCDEFGHIJKLMNOPQRSTUVWXYZ'' @ ''0123456789'')
                             then c else CHR ''_'') (symbol ti)
                      @ ''_Terms_'' @ t @ ''.pdf'')
                   (fileDate ti) (length (data fileResponse))"
    and "writeFileSync E
             (path_join (downloadDir C)
                (map (\<lambda>c. if c \<in> set (''abcdefghijklmnopqrstuvwxyz''
                                        @ ''ABCDEFGHIJKLMNOPQRSTUVWXYZ'' @ ''0123456789'')
                          then c else CHR ''_'') (symbol ti)
                   @ ''_Terms_'' @ t @ ''.pdf''))
             (data fileResponse) (world s) = (Inr (), world s1)"
    by (simp_all only: deriveFilename_None sanitize_explicit)
next
  fix t' sy iss fn fd sz s1
  assume h: "(\<forall>u opts w r w'. httpGet E u opts w = (Inr r, w') \<longrightarrow> content_disposition r = None)
          \<and> downloadWarrant E C t s = (Inr (Success t' sy iss fn fd sz), s1)"
  then have nohdr: "\<And>u opts w r w'. httpGet E u opts w = (Inr r, w') \<Longrightarrow> content_disposition r = None"
    by blast
  from h have "downloadWarrant_try E C t s = (Inr (Success t' sy iss fn fd sz), s1)"
    by (auto simp: downloadWarrant_def split: prod.splits sum.splits)
  then obtain html s0 where "examine E C t html s0 = (Inr (Success t' sy iss fn fd sz), s1)"
    by (auto simp: downloadWarrant_try_def split: prod.splits sum.splits)
  then obtain ti fr s2 where
    f: "fetchWithRetry E C (url ti) \<lparr>referer = Some (detailURL t), arraybuffer = True\<rparr> s0
          = (Inr (Some fr), s2)"
    and st: "store_file E C t ti fr s2 = (Inr (Success t' sy iss fn fd sz), s1)"
    by (auto simp: examine_def split: prod.splits sum.splits option.splits)
  from f have "content_disposition fr = None"
    unfolding fetchWithRetry_def using fetch_from_response nohdr by blast
  with store_file_result [OF st] have "fn = sanitize sy @ ''_Terms_'' @ t @ ''.pdf''"
    by (simp add: deriveFilename_None)
  then show "fn = map (\<lambda>c. if c \<in> set (''abcdefghijklmnopqrstuvwxyz''
                                    @ ''ABCDEFGHIJKLMNOPQRSTUVWXYZ'' @ ''0123456789'')
                      then c else CHR ''_'') sy
               @ ''_Terms_'' @ t @ ''.pdf''"
    by (simp only: sanitize_explicit)
qed

theorem C9_filename_fallback_witness:
  "fst (downloadWarrant (disk_env (flaky_server 0 ''%PDF'') sample_terms (\<lambda>h. Inr []))
            sample_config ''123'' fresh_wstate)
       = Inr (Success ''123'' ''ABC'' ''Issuer'' ''ABC_Terms_123.pdf'' None 4)
   \<and> files (world (snd (downloadWarrant (disk_env (flaky_server 0 ''%PDF'') sample_terms (\<lambda>h. Inr []))
            sample_config ''123'' fresh_wstate))) ''downloads/ABC_Terms_123.pdf'' = Some ''%PDF''
   \<and> fst (store_file (disk_env (flaky_server 0 ''%PDF'') sample_terms (\<lambda>h. Inr [])) sample_config ''123''
            \<lparr>url = ''https://market.sec.or.th/file'', issuer = ''Issuer'', symbol = ''A-B C'',
              fileDate = None\<rparr>
            \<lparr>data = ''%PDF'', content_disposition = None\<rparr> fresh_wstate)
       = Inr (Success ''123'' ''A-B C'' ''Issuer'' ''A_B_C_Terms_123.pdf'' None 4)"
proof -
  let ?E = "disk_env (flaky_server 0 ''%PDF'') sample_terms (\<lambda>h. Inr [])"
  let ?ti = "\<lparr>url = ''https://market.sec.or.th/file'', issuer = ''Issuer'', symbol = ''A-B C'',
              fileDate = None\<rparr>"
  let ?fr = "\<lparr>data = ''%PDF'', content_disposition = None\<rparr>"
  have h1: "\<forall>u opts w r w'. httpGet ?E u opts w = (Inr r, w') \<longrightarrow> content_disposition r = None"
    by (auto simp: disk_env_def flaky_server_def)
  have o: "(case fst (downloadWarrant ?E sample_config ''123'' fresh_wstate) of
            Inr (Success t' sy iss fn fd sz) \<Rightarrow> t' = ''123'' \<and> sy = ''ABC'' \<and> iss = ''Issuer''
               \<and> fd = None \<and> sz = 4
          | _ \<Rightarrow> False)"
    by code_simp
  then obtain fn s1 where
    dw: "downloadWarrant ?E sample_config ''123'' fresh_wstate
           = (Inr (Success ''123'' ''ABC'' ''Issuer'' fn None 4), s1)"
    by (cases "downloadWarrant ?E sample_config ''123'' fresh_wstate")
      (auto split: sum.splits outcome.splits)
  with h1 C9_filename_fallback [where E = ?E and C = sample_config and t = "''123''"
      and s = fresh_wstate]
  have "fn = map (\<lambda>c. if c \<in> set (''abcdefghijklmnopqrstuvwxyz''
                                    @ ''ABCDEFGHIJKLMNOPQRSTUVWXYZ'' @ ''0123456789'')
                      then c else CHR ''_'') ''ABC'' @ ''_Terms_'' @ ''123'' @ ''.pdf''"
    by blast
  then have h2: "fst (downloadWarrant ?E sample_config ''123'' fresh_wstate)
       = Inr (Success ''123'' ''ABC'' ''Issuer'' ''ABC_Terms_123.pdf'' None 4)"
    using dw by simp
  have h3: "files (world (snd (downloadWarrant ?E sample_config ''123'' fresh_wstate)))
      ''downloads/ABC_Terms_123.pdf'' = Some ''%PDF''"
    by code_simp
  obtain result s2 where st: "store_file ?E sample_config ''123'' ?ti ?fr fresh_wstate = (Inr result, s2)"
    by (simp add: store_file_def Let_def disk_env_def)
  have cd: "content_disposition ?fr = None" by simp
  from st cd C9_filename_fallback [where E = ?E and C = sample_config and t = "''123''"
      and s = fresh_wstate and ti = ?ti and fileResponse = ?fr]
  have "result = Success ''123'' (symbol ?ti) (issuer ?ti)
                   (map (\<lambda>c. if c \<in> set (''abcdefghijklmnopqrstuvwxyz''
                                           @ ''ABCDEFGHIJKLMNOPQRSTUVWXYZ'' @ ''0123456789'')
                             then c else CHR ''_'') (symbol ?ti) @ ''_Terms_'' @ ''123'' @ ''.pdf'')
                   (fileDate ?ti) (length (data ?fr))"
    by blast
  then have "result = Success ''123'' ''A-B C'' ''Issuer'' ''A_B_C_Terms_123.pdf'' None 4"
    by simp
  with st have b: "fst (store_file ?E sample_config ''123'' ?ti ?fr fresh_wstate)
       = Inr (Success ''123'' ''A-B C'' ''Issuer'' ''A_B_C_Terms_123.pdf'' None 4)"
    by simp
  from h2 h3 b show ?thesis by blast
qed

section \<open>The detail page and the cache\<close>

lemma disk_env_fields [simp]:
  "httpGet (disk_env sv tm ids) u opts w = (sv (calls w) u opts, w\<lparr>calls := calls w + 1\<rparr>)"
  "existsSync (disk_env sv tm ids) p w = (files w p \<noteq> None, w)"
  "readFileSync (disk_env sv tm ids) p w =
     (case files w p of None \<Rightarrow> Inl (Error ''ENOENT: no such file or directory'')
      | Some c \<Rightarrow> Inr c, w)"
  "writeFileSync (disk_env sv tm ids) p c w = (Inr (), w\<lparr>files := (files w)(p \<mapsto> c)\<rparr>)"
  "extractTermsURL (disk_env sv tm ids) = tm"
  "listingTransIDs (disk_env sv tm ids) = ids"
  by (simp_all add: disk_env_def)

lemma disk_cache_get [simp]:
  "cache_get (disk_env sv tm ids) C key w = (Inr (files w (getCachePath C key)), w)"
  by (cases "files w (getCachePath C key)") (simp_all add: cache_get_def cache_has_def)

lemma disk_cache_set [simp]:
  "cache_set (disk_env sv tm ids) C key c w
     = (Inr (), w\<lparr>files := (files w)(getCachePath C key \<mapsto> c)\<rparr>)"
  by (simp add: cache_set_def)

lemma disk_fetch_from_files:
  "files (world (snd (fetchWithRetry_from (disk_env sv tm ids) C u opts retries a s)))
     = files (world s)"
proof (induction "disk_env sv tm ids" C u opts retries a s rule: fetchWithRetry_from.induct)
  case (1 C u opts retries attempt s)
  show ?case
  proof (cases "sv (calls (world s)) u opts")
    case (Inl e)
    then have g: "httpGet (disk_env sv tm ids) u opts (world s)
        = (Inl e, (world s)\<lparr>calls := calls (world s) + 1\<rparr>)"
      by simp
    show ?thesis
    proof (cases "attempt \<le> retries \<and> attempt \<noteq> retries")
      case True
      with 1 [OF _ g [symmetric] refl] g show ?thesis
        by (simp add: fetchWithRetry_from.simps [of _ C u opts retries attempt s])
    next
      case False
      with g show ?thesis
        by (auto simp: fetchWithRetry_from.simps [of _ C u opts retries attempt s])
    qed
  next
    case (Inr r)
    then have g: "httpGet (disk_env sv tm ids) u opts (world s)
        = (Inr r, (world s)\<lparr>calls := calls (world s) + 1\<rparr>)"
      by simp
    then show ?thesis
      by (auto simp: fetchWithRetry_from.simps [of _ C u opts retries attempt s])
  qed
qed

lemma disk_fetch_files:
  "fetchWithRetry (disk_env sv tm ids) C u opts s = (r, s1) \<Longrightarrow> files (world s1) = files (world s)"
  using disk_fetch_from_files [of sv tm ids C u opts "retryAttempts C" 1 s]
  by (simp add: fetchWithRetry_def)

lemma disk_examine_failure_files:
  "examine (disk_env sv tm ids) C t html s = (r, s1) \<Longrightarrow> \<forall>result. r = Inr result \<longrightarrow> \<not> success result \<Longrightarrow>
   files (world s1) = files (world s)"
  by (auto simp: examine_def store_file_def Let_def
      split: prod.splits sum.splits option.splits dest: disk_fetch_files)

text \<open>
  C10, amended, over the file system that keeps what is written. For an item whose
  detail page the cache does not give (no file, or an empty one), when the detail
  request returns a response, \<^verbatim>\<open>downloadWarrant\<close> writes the page to the cache and only
  then examines it, and the cached page is still there when the call returns a failure
  outcome. For an item whose cached page is not empty, the call makes no detail request,
  pauses for none, and examines the cached page. (An empty page is stored and requested
  again by the next call.)
\<close>

theorem C10_detail_cached:
  "(\<forall>r s1. falsy (files (world s) (getCachePath C (''detail_'' @ t)))
       \<and> fetchWithRetry (disk_env sv tm ids) C (detailURL t)
            \<lparr>referer = Some (getListUrl C), arraybuffer = False\<rparr>
            (s\<lparr>log := log s @ [Sleep (requestDelay C)]\<rparr>) = (Inr (Some r), s1) \<longrightarrow>
       detail_html (disk_env sv tm ids) C t s
         = (Inr (data r),
            s1\<lparr>world := (world s1)\<lparr>files := (files (world s))(getCachePath C (''detail_'' @ t) \<mapsto> data r)\<rparr>\<rparr>)
     \<and> downloadWarrant_try (disk_env sv tm ids) C t s
         = examine (disk_env sv tm ids) C t (data r)
            (s1\<lparr>world := (world s1)\<lparr>files := (files (world s))(getCachePath C (''detail_'' @ t) \<mapsto> data r)\<rparr>\<rparr>)
     \<and> (\<forall>result s2. downloadWarrant (disk_env sv tm ids) C t s = (Inr result, s2)
            \<and> \<not> success result \<longrightarrow>
          files (world s2) (getCachePath C (''detail_'' @ t)) = Some (data r)))
   \<and> (\<forall>h. files (world s) (getCachePath C (''detail_'' @ t)) = Some h \<and> h \<noteq> [] \<longrightarrow>
         detail_html (disk_env sv tm ids) C t s = (Inr h, s)
       \<and> downloadWarrant_try (disk_env sv tm ids) C t s = examine (disk_env sv tm ids) C t h s)"
proof (intro conjI allI impI)
  fix r :: response and s1 :: "disk wstate"
  let ?E = "disk_env sv tm ids"
  let ?p = "getCachePath C (''detail_'' @ t)"
  let ?s2 = "s1\<lparr>world := (world s1)\<lparr>files := (files (world s))(?p \<mapsto> data r)\<rparr>\<rparr>"
  assume h: "falsy (files (world s) ?p)
       \<and> fetchWithRetry ?E C (detailURL t) \<lparr>referer = Some (getListUrl C), arraybuffer = False\<rparr>
            (s\<lparr>log := log s @ [Sleep (requestDelay C)]\<rparr>) = (Inr (Some r), s1)"
  then have fs: "files (world s1) = files (world s)"
    using disk_fetch_files [of sv tm ids C _ _ "s\<lparr>log := log s @ [Sleep (requestDelay C)]\<rparr>"]
    by auto
  from h fs show d: "detail_html ?E C t s = (Inr (data r), ?s2)"
    by (simp add: detail_html_def)
  then show t: "downloadWarrant_try ?E C t s = examine ?E C t (data r) ?s2"
    by (simp add: downloadWarrant_try_def)
  fix result and s3 :: "disk wstate"
  assume f: "downloadWarrant ?E C t s = (Inr result, s3) \<and> \<not> success result"
  obtain rr s4 where ex: "examine ?E C t (data r) ?s2 = (rr, s4)"
    by (cases "examine ?E C t (data r) ?s2")
  have "\<forall>res. rr = Inr res \<longrightarrow> \<not> success res"
    using f t ex by (auto simp: downloadWarrant_def)
  with ex have "files (world s4) = files (world ?s2)"
    by (rule disk_examine_failure_files)
  moreover have "files (world s3) = files (world s4)"
    using f t ex by (cases rr) (auto simp: downloadWarrant_def)
  ultimately show "files (world s3) ?p = Some (data r)" by simp
next
  fix h
  let ?E = "disk_env sv tm ids"
  let ?p = "getCachePath C (''detail_'' @ t)"
  assume h: "files (world s) ?p = Some h \<and> h \<noteq> []"
  then show d: "detail_html ?E C t s = (Inr h, s)"
    by (simp add: detail_html_def)
  then show "downloadWarrant_try ?E C t s = examine ?E C t h s"
    by (simp add: downloadWarrant_try_def)
qed

theorem C10_detail_cached_witness:
  "falsy (files (world fresh_wstate) (getCachePath sample_config (''detail_'' @ ''123'')))
   \<and> fst (fetchWithRetry (disk_env (flaky_server 0 ''<html></html>'') (\<lambda>h. Inr None) (\<lambda>h. Inr []))
          sample_config (detailURL ''123'')
          \<lparr>referer = Some (getListUrl sample_config), arraybuffer = False\<rparr>
          (fresh_wstate\<lparr>log := log fresh_wstate @ [Sleep (requestDelay sample_config)]\<rparr>))
       = Inr (Some \<lparr>data = ''<html></html>'', content_disposition = None\<rparr>)
   \<and> fst (downloadWarrant (disk_env (flaky_server 0 ''<html></html>'') (\<lambda>h. Inr None) (\<lambda>h. Inr []))
          sample_config ''123'' fresh_wstate) = Inr (Failure ''123'' ''Terms file not found'')
   \<and> files (world (snd (downloadWarrant
          (disk_env (flaky_server 0 ''<html></html>'') (\<lambda>h. Inr None) (\<lambda>h. Inr []))
          sample_config ''123'' fresh_wstate))) (getCachePath sample_config (''detail_'' @ ''123''))
       = Some ''<html></html>''
   \<and> detail_html (disk_env (flaky_server 0 ''<html></html>'') (\<lambda>h. Inr None) (\<lambda>h. Inr []))
          sample_config ''123''
          (snd (downloadWarrant (disk_env (flaky_server 0 ''<html></html>'') (\<lambda>h. Inr None) (\<lambda>h. Inr []))
             sample_config ''123'' fresh_wstate))
       = (Inr ''<html></html>'',
          snd (downloadWarrant (disk_env (flaky_server 0 ''<html></html>'') (\<lambda>h. Inr None) (\<lambda>h. Inr []))
             sample_config ''123'' fresh_wstate))"
proof -
  let ?E = "disk_env (flaky_server 0 ''<html></html>'') (\<lambda>h. Inr None) (\<lambda>h. Inr [])"
  let ?p = "getCachePath sample_config (''detail_'' @ ''123'')"
  let ?s1 = "snd (downloadWarrant ?E sample_config ''123'' fresh_wstate)"
  have h1: "falsy (files (world fresh_wstate) ?p)"
    by (simp add: fresh_wstate_def fresh_disk_def)
  have h2: "fst (fetchWithRetry ?E sample_config (detailURL ''123'')
          \<lparr>referer = Some (getListUrl sample_config), arraybuffer = False\<rparr>
          (fresh_wstate\<lparr>log := log fresh_wstate @ [Sleep (requestDelay sample_config)]\<rparr>))
       = Inr (Some \<lparr>data = ''<html></html>'', content_disposition = None\<rparr>)"
    by code_simp
  have h3: "fst (downloadWarrant ?E sample_config ''123'' fresh_wstate)
       = Inr (Failure ''123'' ''Terms file not found'')"
    by code_simp
  from h2 have h2': "fetchWithRetry ?E sample_config (detailURL ''123'')
          \<lparr>referer = Some (getListUrl sample_config), arraybuffer = False\<rparr>
          (fresh_wstate\<lparr>log := log fresh_wstate @ [Sleep (requestDelay sample_config)]\<rparr>)
       = (Inr (Some \<lparr>data = ''<html></html>'', content_disposition = None\<rparr>),
          snd (fetchWithRetry ?E sample_config (detailURL ''123'')
          \<lparr>referer = Some (getListUrl sample_config), arraybuffer = False\<rparr>
          (fresh_wstate\<lparr>log := log fresh_wstate @ [Sleep (requestDelay sample_config)]\<rparr>)))"
    by (metis prod.collapse)
  from h3 have h3': "downloadWarrant ?E sample_config ''123'' fresh_wstate
       = (Inr (Failure ''123'' ''Terms file not found''), ?s1)"
    by (metis prod.collapse)
  have ns: "\<not> success (Failure ''123'' ''Terms file not found'')"
    by simp
  have "files (world ?s1) ?p = Some (data \<lparr>data = ''<html></html>'', content_disposition = None\<rparr>)"
    using C10_detail_cached [of fresh_wstate sample_config "''123''" "flaky_server 0 ''<html></html>''"
        "\<lambda>h. Inr None" "\<lambda>h. Inr []"] h1 h2' h3' ns
    by blast
  then have c1: "files (world ?s1) ?p = Some ''<html></html>''"
    by simp
  then have "files (world ?s1) ?p = Some ''<html></html>'' \<and> ''<html></html>'' \<noteq> []"
    by simp
  then have c2: "detail_html ?E sample_config ''123'' ?s1 = (Inr ''<html></html>'', ?s1)"
    using C10_detail_cached [of ?s1 sample_config "''123''" "flaky_server 0 ''<html></html>''"
        "\<lambda>h. Inr None" "\<lambda>h. Inr []"]
    by blast
  from h1 h2 h3 c1 c2 show ?thesis by blast
qed

text \<open>
  C10, as stated, fails for an empty page: \<^verbatim>\<open>if (!html)\<close> takes the empty string that
  \<^verbatim>\<open>cache.get\<close> reads back for a missing page. The site answers the detail request of
  item 123 with an empty body; the call stores it and returns
  \<^verbatim>\<open>Terms file not found\<close>; the next call requests the detail page again.
\<close>

theorem C10_empty_page_counterexample:
  "fst (downloadWarrant (disk_env (flaky_server 0 []) sample_terms (\<lambda>h. Inr []))
          sample_config ''123'' fresh_wstate) = Inr (Failure ''123'' ''Terms file not found'')
   \<and> files (world (snd (downloadWarrant (disk_env (flaky_server 0 []) sample_terms (\<lambda>h. Inr []))
          sample_config ''123'' fresh_wstate))) (getCachePath sample_config ''detail_123'') = Some []
   \<and> requests (log (snd (downloadWarrant (disk_env (flaky_server 0 []) sample_terms (\<lambda>h. Inr []))
          sample_config ''123''
          ((snd (downloadWarrant (disk_env (flaky_server 0 []) sample_terms (\<lambda>h. Inr []))
                   sample_config ''123'' fresh_wstate))\<lparr>log := []\<rparr>))))
       = [detailURL ''123'']"
  by code_simp

section \<open>The Batch Scheduler\<close>

lemma invoke_all_length: "invoke_all E C ts s = (ks, s') \<Longrightarrow> length ks = length ts"
  by (induction ts arbitrary: s ks s') (auto split: prod.splits)

lemma resume_at_length: "resume_at E C b i ks s = (ks', s') \<Longrightarrow> length ks' = length ks"
  by (auto simp: resume_at_def split: if_splits prod.splits)

lemma run_schedule_length: "run_schedule E C b sched ks s = (ks', s') \<Longrightarrow> length ks' = length ks"
  by (induction sched arbitrary: ks s) (auto split: prod.splits dest: resume_at_length)

lemma workers_after_length: "workers_after E C sched b s = (ks, s') \<Longrightarrow> length ks = length b"
  by (auto simp: workers_after_def split: prod.splits) (metis invoke_all_length run_schedule_length)

lemma finish_Settled [simp]: "finish E C t (Settled r) s = (r, s)"
  by (simp add: finish.simps)

lemma finish_running:
  "\<forall>r. k \<noteq> Settled r \<Longrightarrow>
   finish E C t k s = (case resume E C t k s of (k1, s1) \<Rightarrow> finish E C t k1 s1)"
  by (subst finish.simps) (simp split: wcont.splits)

text \<open>
  A property of the batch so far, the suspended workers and the state that holds at the
  start, that every call of a worker keeps and every resumption keeps, holds when
  \<^verbatim>\<open>Promise.all\<close> resolves, of the settled workers.
\<close>

lemma invoke_all_keeps:
  assumes start: "\<And>ts ks s t k s'. Inv ts ks s \<Longrightarrow> prefix (ts @ [t]) b \<Longrightarrow>
      start_worker E C t (s\<lparr>log := log s @ [WorkerInvoked t]\<rparr>) = (k, s') \<Longrightarrow> Inv (ts @ [t]) (ks @ [k]) s'"
  shows "Inv pre kp s \<Longrightarrow> prefix (pre @ ts) b \<Longrightarrow> invoke_all E C ts s = (ks, s') \<Longrightarrow>
         Inv (pre @ ts) (kp @ ks) s'"
proof (induction ts arbitrary: pre kp s ks s')
  case Nil
  then show ?case by simp
next
  case (Cons t ts)
  obtain k s1 where k: "start_worker E C t (s\<lparr>log := log s @ [WorkerInvoked t]\<rparr>) = (k, s1)"
    by (cases "start_worker E C t (s\<lparr>log := log s @ [WorkerInvoked t]\<rparr>)")
  obtain ks1 s2 where r: "invoke_all E C ts s1 = (ks1, s2)" by (cases "invoke_all E C ts s1")
  from Cons.prems(3) k r have e: "ks = k # ks1" "s' = s2" by simp_all
  from Cons.prems(2) have p1: "prefix (pre @ [t]) b"
    by (metis append.assoc append_Cons append_Nil prefix_def)
  from start [OF Cons.prems(1) p1 k] have i: "Inv (pre @ [t]) (kp @ [k]) s1" .
  from Cons.prems(2) have p2: "prefix ((pre @ [t]) @ ts) b" by simp
  from Cons.IH [OF i p2 r] e show ?case by simp
qed

lemma run_schedule_keeps:
  assumes step: "\<And>ks s i k s'. Inv b ks s \<Longrightarrow> i < length ks \<Longrightarrow> i < length b \<Longrightarrow>
      resume E C (b ! i) (ks ! i) s = (k, s') \<Longrightarrow> Inv b (ks[i := k]) s'"
  shows "Inv b ks s \<Longrightarrow> run_schedule E C b sched ks s = (ks', s') \<Longrightarrow> Inv b ks' s'"
proof (induction sched arbitrary: ks s)
  case Nil
  then show ?case by simp
next
  case (Cons i sched)
  obtain ks1 s1 where r: "resume_at E C b i ks s = (ks1, s1)" by (cases "resume_at E C b i ks s")
  have "Inv b ks1 s1"
  proof (cases "i < length ks \<and> i < length b")
    case True
    obtain k s2 where k: "resume E C (b ! i) (ks ! i) s = (k, s2)"
      by (cases "resume E C (b ! i) (ks ! i) s")
    with r True have "ks1 = ks[i := k]" "s1 = s2" by (simp_all add: resume_at_def)
    with step [OF Cons.prems(1) _ _ k] True show ?thesis by simp
  next
    case False
    with r Cons.prems(1) show ?thesis by (auto simp: resume_at_def)
  qed
  with Cons.IH [of ks1 s1] Cons.prems(2) r show ?case by simp
qed

lemma finish_keeps:
  assumes step: "\<And>ks s i k s'. Inv b ks s \<Longrightarrow> i < length ks \<Longrightarrow> i < length b \<Longrightarrow>
      resume E C (b ! i) (ks ! i) s = (k, s') \<Longrightarrow> Inv b (ks[i := k]) s'"
  shows "finish E C t k s = (r, s') \<Longrightarrow> t = b ! i \<Longrightarrow> k = ks ! i \<Longrightarrow> Inv b ks s \<Longrightarrow>
         i < length ks \<Longrightarrow> i < length b \<Longrightarrow> Inv b (ks[i := Settled r]) s'"
  using step
proof (induction E C t k s arbitrary: ks rule: finish.induct)
  case (1 E C t k s)
  note fin = "1.prems"(1) and t = "1.prems"(2) and k = "1.prems"(3) and inv = "1.prems"(4)
    and i1 = "1.prems"(5) and i2 = "1.prems"(6) and st = "1.prems"(7)
  show ?case
  proof (cases "\<exists>r0. k = Settled r0")
    case True
    then obtain r0 where k0: "k = Settled r0" by blast
    with fin have "r = r0" "s' = s" by simp_all
    with k0 k inv i1 show ?thesis by (simp add: list_update_same_conv [THEN iffD2])
  next
    case False
    obtain k1 s1 where k1: "resume E C t k s = (k1, s1)" by (cases "resume E C t k s")
    with False fin have f: "finish E C t k1 s1 = (r, s')"
      by (simp add: finish_running)
    from k1 t k have r: "resume E C (b ! i) (ks ! i) s = (k1, s1)" by simp
    from st [OF inv i1 i2 r] have i: "Inv b (ks[i := k1]) s1" .
    have x: "k1 = ks[i := k1] ! i" using i1 by simp
    have l: "i < length (ks[i := k1])" using i1 by simp
    have "Inv b ((ks[i := k1])[i := Settled r]) s'"
    proof (cases k)
      case Sleeping
      from "1.IH"(1) [OF Sleeping k1 [symmetric] f t x i l i2 st] show ?thesis .
    next
      case (Getting ph n res)
      from "1.IH"(2) [OF Getting k1 [symmetric] f t x i l i2 st] show ?thesis .
    next
      case (Pausing ph n)
      from "1.IH"(3) [OF Pausing k1 [symmetric] f t x i l i2 st] show ?thesis .
    next
      case (NoAttempt ph)
      from "1.IH"(4) [OF NoAttempt k1 [symmetric] f t x i l i2 st] show ?thesis .
    next
      case (Settled r0)
      with False show ?thesis by simp
    qed
    then show ?thesis by simp
  qed
qed

lemma finish_all_keeps:
  assumes step: "\<And>ks s i k s'. Inv b ks s \<Longrightarrow> i < length ks \<Longrightarrow> i < length b \<Longrightarrow>
      resume E C (b ! i) (ks ! i) s = (k, s') \<Longrightarrow> Inv b (ks[i := k]) s'"
  shows "Inv b (map Settled done @ ks) s \<Longrightarrow> b = pre @ ts \<Longrightarrow> length pre = length done \<Longrightarrow>
         length ks = length ts \<Longrightarrow> finish_all E C ts ks s = (rs, s') \<Longrightarrow>
         Inv b (map Settled (done @ rs)) s' \<and> length rs = length ts"
proof (induction ts arbitrary: pre "done" ks s rs s')
  case Nil
  then show ?case by simp
next
  case (Cons t ts)
  from Cons.prems(4) obtain k ks1 where ks: "ks = k # ks1" "length ks1 = length ts"
    by (cases ks) auto
  obtain r s1 where f: "finish E C t k s = (r, s1)" by (cases "finish E C t k s")
  obtain rs1 s2 where g: "finish_all E C ts ks1 s1 = (rs1, s2)" by (cases "finish_all E C ts ks1 s1")
  from Cons.prems(5) ks f g have e: "rs = r # rs1" "s' = s2" by simp_all
  let ?i = "length done"
  let ?ks = "map Settled done @ k # ks1"
  have t: "t = b ! ?i" using Cons.prems(2) Cons.prems(3) by (simp add: nth_append)
  have k: "k = ?ks ! ?i" by (simp add: nth_append)
  have i1: "?i < length ?ks" by simp
  have i2: "?i < length b" using Cons.prems(2) Cons.prems(3) by simp
  from Cons.prems(1) ks have inv: "Inv b ?ks s" by simp
  from finish_keeps [of Inv b E C, OF step f t k inv i1 i2]
  have "Inv b (?ks[?i := Settled r]) s1" .
  moreover have "?ks[?i := Settled r] = map Settled (done @ [r]) @ ks1"
    by (simp add: list_update_append)
  ultimately have inv1: "Inv b (map Settled (done @ [r]) @ ks1) s1" by simp
  have b: "b = (pre @ [t]) @ ts" using Cons.prems(2) by simp
  have l: "length (pre @ [t]) = length (done @ [r])" using Cons.prems(3) by simp
  from Cons.IH [OF inv1 b l ks(2) g] e show ?case by simp
qed

lemma run_workers_keeps:
  assumes start: "\<And>ts ks s t k s'. Inv ts ks s \<Longrightarrow> prefix (ts @ [t]) b \<Longrightarrow>
      start_worker E C t (s\<lparr>log := log s @ [WorkerInvoked t]\<rparr>) = (k, s') \<Longrightarrow> Inv (ts @ [t]) (ks @ [k]) s'"
    and step: "\<And>ks s i k s'. Inv b ks s \<Longrightarrow> i < length ks \<Longrightarrow> i < length b \<Longrightarrow>
      resume E C (b ! i) (ks ! i) s = (k, s') \<Longrightarrow> Inv b (ks[i := k]) s'"
    and init: "Inv [] [] s0"
    and run: "run_workers E C sched b s0 = (rs, s')"
  shows "Inv b (map Settled rs) s' \<and> length rs = length b"
proof -
  obtain ks0 s1 where a: "invoke_all E C b s0 = (ks0, s1)" by (cases "invoke_all E C b s0")
  obtain ks1 s2 where c: "run_schedule E C b sched ks0 s1 = (ks1, s2)"
    by (cases "run_schedule E C b sched ks0 s1")
  from run a c have f: "finish_all E C b ks1 s2 = (rs, s')"
    by (simp add: run_workers_def workers_after_def)
  from invoke_all_keeps [of Inv b E C "[]" "[]" s0 b ks0 s1, OF start init _ a]
  have i0: "Inv b ks0 s1" by simp
  from run_schedule_keeps [of Inv b E C, OF step i0 c] have i1: "Inv b ks1 s2" .
  have l: "length ks1 = length b"
    using invoke_all_length [OF a] run_schedule_length [OF c] by simp
  from finish_all_keeps [of Inv b E C "[]" ks1 s2 "[]" b rs s', OF step _ _ _ l f] i1
  show ?thesis by simp
qed

lemma flight_append:
  "flight c nm (xs @ ys) = (case flight c nm xs of None \<Rightarrow> None | Some nm' \<Rightarrow> flight c nm' ys)"
proof (induction xs arbitrary: nm)
  case Nil
  show ?case by (cases nm) simp
next
  case (Cons ev xs)
  show ?case by (cases nm; cases ev) (simp_all add: Cons)
qed

lemma flight_counts:
  "flight c (n, m) evs = Some (n', m') \<Longrightarrow>
   n + length (invoked evs) = n' + length (settled evs)"
proof (induction evs arbitrary: n m)
  case Nil
  then show ?case by (simp add: invoked_def settled_def)
next
  case (Cons ev evs)
  then show ?case
    by (cases ev) (force simp: invoked_def settled_def split: if_splits)+
qed

lemma projections_append [simp]:
  "settled (xs @ ys) = settled xs @ settled ys"
  "saves (xs @ ys) = saves xs @ saves ys"
  "invoked (xs @ ys) = invoked xs @ invoked ys"
  by (simp_all add: settled_def saves_def invoked_def)

lemma projections_Nil [simp]: "settled [] = []" "saves [] = []" "invoked [] = []"
  by (simp_all add: settled_def saves_def invoked_def)

lemma projections_Cons [simp]:
  "invoked (WorkerInvoked t # evs) = t # invoked evs"
  "invoked (WorkerSettled r # evs) = invoked evs"
  "invoked (HttpGet u # evs) = invoked evs"
  "invoked (Response u # evs) = invoked evs"
  "invoked (Sleep ms # evs) = invoked evs"
  "invoked (LedgerSaved d # evs) = invoked evs"
  "saves (WorkerInvoked t # evs) = saves evs"
  "saves (WorkerSettled r # evs) = saves evs"
  "saves (HttpGet u # evs) = saves evs"
  "saves (Response u # evs) = saves evs"
  "saves (Sleep ms # evs) = saves evs"
  "saves (LedgerSaved d # evs) = d # saves evs"
  "settled (WorkerInvoked t # evs) = settled evs"
  "settled (WorkerSettled r # evs) = r # settled evs"
  "settled (HttpGet u # evs) = settled evs"
  "settled (Response u # evs) = settled evs"
  "settled (Sleep ms # evs) = settled evs"
  "settled (LedgerSaved d # evs) = settled evs"
  by (simp_all add: settled_def saves_def invoked_def)

lemma projections_saved [simp]:
  "settled (map LedgerSaved ds) = []" "saves (map LedgerSaved ds) = ds"
  "invoked (map LedgerSaved ds) = []"
  by (induction ds) simp_all

lemma flight_saved [simp]: "flight c nm (map LedgerSaved ds) = Some nm"
  by (induction ds) (cases nm, simp)+

text \<open>The events of one run of a worker between two awaits.\<close>

lemma attempt_events:
  assumes "attempt E C t ph a s = (k', s')"
  shows "\<exists>evs. log s' = log s @ evs \<and> invoked evs = [] \<and> saves evs = [] \<and> running k' = 1
           \<and> (\<forall>n m. m < c \<longrightarrow> flight c (n, m) evs = Some (n, m + requesting k'))"
  using assms by (auto simp: attempt_def split: if_splits prod.splits)

lemma settle_events:
  assumes "settle r s = (k', s')"
  shows "\<exists>evs. log s' = log s @ evs \<and> invoked evs = [] \<and> saves evs = [] \<and> running k' = 0
           \<and> requesting k' = 0 \<and> bar s' = bar s \<and> world s' = world s
           \<and> (\<forall>n m. 0 < n \<longrightarrow> flight c (n, m) evs = Some (n - 1, m))"
  using assms by (auto simp: settle_def)

lemma caught_events:
  assumes "caught t e s = (k', s')"
  shows "\<exists>evs. log s' = log s @ evs \<and> invoked evs = [] \<and> saves evs = [] \<and> running k' = 0
           \<and> requesting k' = 0
           \<and> (\<forall>n m. 0 < n \<longrightarrow> flight c (n, m) evs = Some (n - 1, m))"
  using assms by (auto simp: caught_def settle_def)

lemma examine_start_events:
  assumes "examine_start E C t html s = (k', s')"
  shows "\<exists>evs. log s' = log s @ evs \<and> invoked evs = [] \<and> saves evs = []
           \<and> (\<forall>n m. 0 < n \<longrightarrow> m < c \<longrightarrow>
                 flight c (n, m) evs = Some (n - 1 + running k', m + requesting k'))"
proof (cases "extractTermsURL E html")
  case (Inl e)
  with assms have "caught t e s = (k', s')" by (simp add: examine_start_def)
  from caught_events [OF this, of c] show ?thesis by auto
next
  case (Inr ot)
  show ?thesis
  proof (cases ot)
    case None
    with Inr assms have "settle (Failure t ''Terms file not found'') (s\<lparr>bar := bar s + 1\<rparr>) = (k', s')"
      by (simp add: examine_start_def)
    from settle_events [OF this, of c] show ?thesis by auto
  next
    case (Some ti)
    with Inr assms have "attempt E C t (File ti) 1 s = (k', s')" by (simp add: examine_start_def)
    from attempt_events [OF this, of c] show ?thesis by auto
  qed
qed

lemma store_file_log: "store_file E C t ti r s = (x, s1) \<Longrightarrow> log s1 = log s"
  by (auto simp: store_file_def Let_def split: prod.splits sum.splits)

lemma received_events:
  assumes "received E C t ph r s = (k', s')"
  shows "\<exists>evs. log s' = log s @ evs \<and> invoked evs = [] \<and> saves evs = []
           \<and> (\<forall>n m. 0 < n \<longrightarrow> m < c \<longrightarrow>
                 flight c (n, m) evs = Some (n - 1 + running k', m + requesting k'))"
proof (cases ph)
  case Detail
  show ?thesis
  proof (cases "cache_set E C (''detail_'' @ t) (data r) (world s)")
    case (Pair x w)
    show ?thesis
    proof (cases x)
      case (Inl e)
      with Pair Detail assms have "caught t e (s\<lparr>world := w\<rparr>) = (k', s')"
        by (simp add: received_def)
      from caught_events [OF this, of c] show ?thesis by auto
    next
      case (Inr u)
      with Pair Detail assms have "examine_start E C t (data r) (s\<lparr>world := w\<rparr>) = (k', s')"
        by (simp add: received_def)
      from examine_start_events [OF this, of c] show ?thesis by auto
    qed
  qed
next
  case (File ti)
  show ?thesis
  proof (cases "store_file E C t ti r s")
    case (Pair x s1)
    note l = store_file_log [OF Pair]
    show ?thesis
    proof (cases x)
      case (Inl e)
      with Pair File assms have "caught t e s1 = (k', s')" by (simp add: received_def)
      from caught_events [OF this, of c] l show ?thesis by auto
    next
      case (Inr result)
      with Pair File assms have "settle result s1 = (k', s')" by (simp add: received_def)
      from settle_events [OF this, of c] l show ?thesis by auto
    qed
  qed
qed

lemma start_worker_events:
  assumes "start_worker E C t s = (k', s')"
  shows "\<exists>evs. log s' = log s @ evs \<and> invoked evs = [] \<and> saves evs = []
           \<and> (\<forall>n m. 0 < n \<longrightarrow> m < c \<longrightarrow>
                 flight c (n, m) evs = Some (n - 1 + running k', m + requesting k'))"
proof (cases "cache_get E C (''detail_'' @ t) (world s)")
  case (Pair x w)
  show ?thesis
  proof (cases x)
    case (Inl e)
    with Pair assms have "caught t e (s\<lparr>world := w\<rparr>) = (k', s')" by (simp add: start_worker_def)
    from caught_events [OF this, of c] show ?thesis by auto
  next
    case (Inr html)
    show ?thesis
    proof (cases "falsy html")
      case True
      with Inr Pair assms show ?thesis by (auto simp: start_worker_def)
    next
      case False
      with Inr Pair assms obtain h where "examine_start E C t h (s\<lparr>world := w\<rparr>) = (k', s')"
        by (auto simp: start_worker_def split: option.splits)
      from examine_start_events [OF this, of c] show ?thesis by auto
    qed
  qed
qed

lemma resume_events:
  assumes "resume E C t k s = (k', s')"
  shows "\<exists>evs. log s' = log s @ evs \<and> invoked evs = [] \<and> saves evs = []
           \<and> (\<forall>n m. running k \<le> n \<longrightarrow> requesting k \<le> m \<longrightarrow> m - requesting k < c \<longrightarrow>
                 flight c (n, m) evs
                   = Some (n - running k + running k', m - requesting k + requesting k'))"
proof (cases k)
  case Sleeping
  with assms have "attempt E C t Detail 1 s = (k', s')" by simp
  from attempt_events [OF this, of c] Sleeping show ?thesis by auto
next
  case (Getting ph a res)
  let ?s = "s\<lparr>log := log s @ [Response (fetch_url t ph)]\<rparr>"
  show ?thesis
  proof (cases res)
    case (Inr r)
    with Getting assms have "received E C t ph r ?s = (k', s')" by simp
    from received_events [OF this, of c] obtain evs where
      e: "log s' = log ?s @ evs" "invoked evs = []" "saves evs = []"
         "\<forall>n m. 0 < n \<longrightarrow> m < c \<longrightarrow>
                 flight c (n, m) evs = Some (n - 1 + running k', m + requesting k')"
      by blast
    have "\<forall>n m. running k \<le> n \<longrightarrow> requesting k \<le> m \<longrightarrow> m - requesting k < c \<longrightarrow>
            flight c (n, m) (Response (fetch_url t ph) # evs)
              = Some (n - running k + running k', m - requesting k + requesting k')"
      using e(4) Getting by auto
    with e show ?thesis by (intro exI [of _ "Response (fetch_url t ph) # evs"]) simp
  next
    case (Inl e)
    show ?thesis
    proof (cases "a = retryAttempts C")
      case True
      with Inl Getting assms have "caught t e ?s = (k', s')" by simp
      from caught_events [OF this, of c] obtain evs where
        e: "log s' = log ?s @ evs" "invoked evs = []" "saves evs = []"
           "running k' = 0" "requesting k' = 0"
           "\<forall>n m. 0 < n \<longrightarrow> flight c (n, m) evs = Some (n - 1, m)"
        by blast
      have "\<forall>n m. running k \<le> n \<longrightarrow> requesting k \<le> m \<longrightarrow> m - requesting k < c \<longrightarrow>
            flight c (n, m) (Response (fetch_url t ph) # evs)
              = Some (n - running k + running k', m - requesting k + requesting k')"
        using e(4) e(5) e(6) Getting by auto
      with e show ?thesis by (intro exI [of _ "Response (fetch_url t ph) # evs"]) simp
    next
      case False
      with Inl Getting assms show ?thesis by auto
    qed
  qed
next
  case (Pausing ph a)
  with assms have "attempt E C t ph (a + 1) s = (k', s')" by simp
  from attempt_events [OF this, of c] Pausing show ?thesis by auto
next
  case (NoAttempt ph)
  with assms obtain e where "caught t e s = (k', s')" by auto
  from caught_events [OF this, of c] NoAttempt show ?thesis by auto
next
  case (Settled r)
  with assms show ?thesis by auto
qed

text \<open>The workers and the requests in flight in a batch.\<close>

lemma sum_update:
  fixes f :: "'a \<Rightarrow> nat"
  shows "i < length ks \<Longrightarrow> sum_list (map f (ks[i := k])) + f (ks ! i) = sum_list (map f ks) + f k"
proof (induction ks arbitrary: i)
  case Nil
  then show ?case by simp
next
  case (Cons a ks)
  show ?case
  proof (cases i)
    case 0
    then show ?thesis by simp
  next
    case (Suc j)
    with Cons.prems Cons.IH [of j] show ?thesis by simp
  qed
qed

lemma requesting_le_running: "requesting k \<le> running k"
  by (cases k) simp_all

lemma sum_requesting_le: "sum_list (map requesting ks) \<le> sum_list (map running ks)"
  by (induction ks) (simp_all add: add_mono requesting_le_running)

lemma running_le_1: "running k \<le> 1"
  by (cases k) simp_all

lemma sum_running_le: "sum_list (map running ks) \<le> length ks"
proof (induction ks)
  case Nil
  show ?case by simp
next
  case (Cons k ks)
  with running_le_1 [of k] show ?case by simp
qed

lemma sum_running_lt:
  "i < length ks \<Longrightarrow> running (ks ! i) = 0 \<Longrightarrow> sum_list (map running ks) < length ks"
proof (induction ks arbitrary: i)
  case Nil
  then show ?case by simp
next
  case (Cons k ks)
  show ?case
  proof (cases i)
    case 0
    with Cons.prems sum_running_le [of ks] show ?thesis by simp
  next
    case (Suc j)
    with Cons.prems Cons.IH [of j] running_le_1 [of k] show ?thesis by simp
  qed
qed

lemma others_requesting:
  assumes "i < length ks"
  shows "sum_list (map requesting ks) - requesting (ks ! i) < length ks"
proof -
  let ?ks = "ks[i := Settled (Failure [] [])]"
  from sum_update [OF assms, of requesting "Settled (Failure [] [])"]
  have "sum_list (map requesting ks) - requesting (ks ! i) = sum_list (map requesting ?ks)"
    by simp
  also have "\<dots> \<le> sum_list (map running ?ks)" by (rule sum_requesting_le)
  also have "\<dots> < length ?ks" using assms by (intro sum_running_lt [of i]) simp_all
  finally show ?thesis by simp
qed

lemma nth_le_sum:
  fixes f :: "'a \<Rightarrow> nat"
  shows "i < length ks \<Longrightarrow> f (ks ! i) \<le> sum_list (map f ks)"
proof (induction ks arbitrary: i)
  case Nil
  then show ?case by simp
next
  case (Cons a ks)
  show ?case
  proof (cases i)
    case 0
    then show ?thesis by simp
  next
    case (Suc j)
    with Cons.prems Cons.IH [of j] show ?thesis by simp
  qed
qed

lemma sum_settled [simp]:
  "sum_list (map (running \<circ> Settled) rs) = 0" "sum_list (map (requesting \<circ> Settled) rs) = 0"
  by (induction rs) simp_all

lemma run_workers_flight:
  assumes c: "length b \<le> c" and run: "run_workers E C sched b s0 = (rs, s')"
  shows "length rs = length b
       \<and> (\<exists>evs. log s' = log s0 @ evs \<and> invoked evs = b \<and> saves evs = []
             \<and> flight c (0, 0) evs = Some (0, 0))"
proof -
  define Inv where "Inv = (\<lambda>ts ks (s :: 'a wstate). length ks = length ts
       \<and> (\<exists>evs. log s = log s0 @ evs \<and> invoked evs = ts \<and> saves evs = []
             \<and> flight c (0, 0) evs
                 = Some (sum_list (map running ks), sum_list (map requesting ks))))"
  have start: "Inv (ts @ [t]) (ks @ [k]) s1"
    if inv: "Inv ts ks s" and p: "prefix (ts @ [t]) b"
      and st: "start_worker E C t (s\<lparr>log := log s @ [WorkerInvoked t]\<rparr>) = (k, s1)"
    for ts ks s t k s1
  proof -
    from inv obtain evs where
      e: "length ks = length ts" "log s = log s0 @ evs" "invoked evs = ts" "saves evs = []"
         "flight c (0, 0) evs = Some (sum_list (map running ks), sum_list (map requesting ks))"
      unfolding Inv_def by blast
    let ?N = "sum_list (map running ks)" and ?M = "sum_list (map requesting ks)"
    from p have "length (ts @ [t]) \<le> length b" by (rule prefix_length_le)
    with c e(1) have l: "length ks < c" by simp
    with sum_running_le [of ks] have n: "?N + 1 \<le> c" by simp
    from sum_requesting_le [of ks] n have m: "?M < c" by simp
    from start_worker_events [OF st, of c] obtain ev1 where
      e1: "log s1 = log s @ [WorkerInvoked t] @ ev1" "invoked ev1 = []" "saves ev1 = []"
          "\<forall>n m. 0 < n \<longrightarrow> m < c \<longrightarrow>
                 flight c (n, m) ev1 = Some (n - 1 + running k, m + requesting k)"
      by auto
    have "flight c (0, 0) (evs @ WorkerInvoked t # ev1) = flight c (?N, ?M) (WorkerInvoked t # ev1)"
      by (simp add: flight_append e(5))
    also have "\<dots> = flight c (?N + 1, ?M) ev1" using n by simp
    also have "\<dots> = Some (?N + running k, ?M + requesting k)" using e1(4) m by simp
    finally have "flight c (0, 0) (evs @ WorkerInvoked t # ev1)
        = Some (sum_list (map running (ks @ [k])), sum_list (map requesting (ks @ [k])))"
      by simp
    moreover have "log s1 = log s0 @ (evs @ WorkerInvoked t # ev1)" using e(2) e1(1) by simp
    moreover have "invoked (evs @ WorkerInvoked t # ev1) = ts @ [t]" using e(3) e1(2) by simp
    moreover have "saves (evs @ WorkerInvoked t # ev1) = []" using e(4) e1(3) by simp
    ultimately show ?thesis unfolding Inv_def using e(1) by auto
  qed
  have step: "Inv b (ks[i := k]) s1"
    if inv: "Inv b ks s" and i: "i < length ks" "i < length b"
      and st: "resume E C (b ! i) (ks ! i) s = (k, s1)"
    for ks s i k s1
  proof -
    from inv obtain evs where
      e: "length ks = length b" "log s = log s0 @ evs" "invoked evs = b" "saves evs = []"
         "flight c (0, 0) evs = Some (sum_list (map running ks), sum_list (map requesting ks))"
      unfolding Inv_def by blast
    let ?N = "sum_list (map running ks)" and ?M = "sum_list (map requesting ks)"
    have n: "running (ks ! i) \<le> ?N" and m: "requesting (ks ! i) \<le> ?M"
      using nth_le_sum [OF i(1)] by blast+
    have o: "?M - requesting (ks ! i) < c" using others_requesting [OF i(1)] e(1) c by simp
    from resume_events [OF st, of c] obtain ev1 where
      e1: "log s1 = log s @ ev1" "invoked ev1 = []" "saves ev1 = []"
          "\<forall>n m. running (ks ! i) \<le> n \<longrightarrow> requesting (ks ! i) \<le> m
              \<longrightarrow> m - requesting (ks ! i) < c \<longrightarrow>
                 flight c (n, m) ev1
                   = Some (n - running (ks ! i) + running k, m - requesting (ks ! i) + requesting k)"
      by blast
    have "flight c (0, 0) (evs @ ev1) = flight c (?N, ?M) ev1" by (simp add: flight_append e(5))
    also have "\<dots> = Some (?N - running (ks ! i) + running k, ?M - requesting (ks ! i) + requesting k)"
      using e1(4) n m o by simp
    also have "?N - running (ks ! i) + running k = sum_list (map running (ks[i := k]))"
      using sum_update [OF i(1), of running k] n by simp
    also have "?M - requesting (ks ! i) + requesting k = sum_list (map requesting (ks[i := k]))"
      using sum_update [OF i(1), of requesting k] m by simp
    finally have "flight c (0, 0) (evs @ ev1)
        = Some (sum_list (map running (ks[i := k])), sum_list (map requesting (ks[i := k])))" .
    moreover have "log s1 = log s0 @ (evs @ ev1)" using e(2) e1(1) by simp
    moreover have "invoked (evs @ ev1) = b" "saves (evs @ ev1) = []"
      using e(3) e(4) e1(2) e1(3) by simp_all
    ultimately show ?thesis unfolding Inv_def using e(1) by auto
  qed
  have init: "Inv [] [] s0" unfolding Inv_def by simp
  have "Inv b (map Settled rs) s' \<and> length rs = length b"
  proof (rule run_workers_keeps [where Inv = Inv and b = b, OF _ _ init run])
    fix ts ks s t k s1
    assume "Inv ts ks s" "prefix (ts @ [t]) b"
      "start_worker E C t (s\<lparr>log := log s @ [WorkerInvoked t]\<rparr>) = (k, s1)"
    then show "Inv (ts @ [t]) (ks @ [k]) s1" by (rule start)
  next
    fix ks s i k s1
    assume "Inv b ks s" "i < length ks" "i < length b" "resume E C (b ! i) (ks ! i) s = (k, s1)"
    then show "Inv b (ks[i := k]) s1" by (rule step)
  qed
  then show ?thesis unfolding Inv_def by simp
qed

lemma start_worker_transID: "start_worker E C t s = (Settled r, s') \<Longrightarrow> transID r = t"
  by (auto simp: start_worker_def examine_start_def caught_def settle_def attempt_def
      split: prod.splits sum.splits option.splits if_splits)

lemma resume_transID:
  "resume E C t k s = (Settled r, s') \<Longrightarrow> (\<forall>r0. k = Settled r0 \<longrightarrow> transID r0 = t) \<Longrightarrow> transID r = t"
  by (cases k)
    (auto simp: received_def examine_start_def caught_def settle_def attempt_def
      split: prod.splits sum.splits option.splits if_splits fetching.splits
      dest!: store_file_result)

lemma run_workers_transID:
  assumes run: "run_workers E C sched b s0 = (rs, s')"
  shows "map transID rs = b"
proof -
  define Inv where "Inv = (\<lambda>ts ks (s :: 'a wstate).
     list_all2 (\<lambda>t k. \<forall>r. k = Settled r \<longrightarrow> transID r = t) ts ks)"
  have start: "Inv (ts @ [t]) (ks @ [k]) s1"
    if "Inv ts ks s" and "start_worker E C t (s\<lparr>log := log s @ [WorkerInvoked t]\<rparr>) = (k, s1)"
    for ts ks s t k s1
    using that start_worker_transID unfolding Inv_def by (auto intro!: list_all2_appendI)
  have step: "Inv b (ks[i := k]) s1"
    if "Inv b ks s" and "i < length ks" and "resume E C (b ! i) (ks ! i) s = (k, s1)"
    for ks s i k s1
  proof -
    from that(1) that(2) have "\<forall>r0. ks ! i = Settled r0 \<longrightarrow> transID r0 = b ! i"
      unfolding Inv_def by (simp add: list_all2_conv_all_nth)
    with that(3) have "\<forall>r. k = Settled r \<longrightarrow> transID r = b ! i" using resume_transID by blast
    with that(1) that(2) show ?thesis unfolding Inv_def
      by (auto simp: list_all2_conv_all_nth nth_list_update)
  qed
  have init: "Inv [] [] s0" unfolding Inv_def by simp
  have "Inv b (map Settled rs) s' \<and> length rs = length b"
  proof (rule run_workers_keeps [where Inv = Inv and b = b, OF _ _ init run])
    fix ts ks s t k s1
    assume "Inv ts ks s" "prefix (ts @ [t]) b"
      "start_worker E C t (s\<lparr>log := log s @ [WorkerInvoked t]\<rparr>) = (k, s1)"
    then show "Inv (ts @ [t]) (ks @ [k]) s1" using start by blast
  next
    fix ks s i k s1
    assume "Inv b ks s" "i < length ks" "i < length b" "resume E C (b ! i) (ks ! i) s = (k, s1)"
    then show "Inv b (ks[i := k]) s1" using step by blast
  qed
  then have "list_all2 (\<lambda>t k. \<forall>r. k = Settled r \<longrightarrow> transID r = t) b (map Settled rs)"
    unfolding Inv_def by simp
  then show ?thesis by (auto simp: list_all2_conv_all_nth intro: nth_equalityI)
qed

text \<open>The records of a batch.\<close>

lemma record_result_effect:
  assumes "record_result E C st r = (x, st1)"
  shows "tracker st1 = mark (tracker st) r \<and> bar (ws st1) = bar (ws st)
       \<and> (x = Inr () \<longrightarrow> log (ws st1) = log (ws st) @ [LedgerSaved (mark (tracker st) r)]
              \<and> results st1 = results st @ [r])
       \<and> (x \<noteq> Inr () \<longrightarrow> log (ws st1) = log (ws st) \<and> results st1 = results st)"
  using assms
  by (auto simp: record_result_def save_def mark_def split: prod.splits sum.splits)

lemma record_results_effect:
  "record_results E C st rs = (x, st1) \<Longrightarrow>
   \<exists>ds. log (ws st1) = log (ws st) @ map LedgerSaved ds \<and> prefix ds (ledger_seq (tracker st) rs)
      \<and> bar (ws st1) = bar (ws st)
      \<and> (x = Inr () \<longrightarrow> ds = ledger_seq (tracker st) rs
            \<and> tracker st1 = foldl mark (tracker st) rs \<and> results st1 = results st @ rs)"
proof (induction rs arbitrary: st)
  case Nil
  then show ?case by auto
next
  case (Cons r rs)
  obtain y st0 where y: "record_result E C st r = (y, st0)" by (cases "record_result E C st r")
  note e = record_result_effect [OF y]
  show ?case
  proof (cases y)
    case (Inl err)
    with y Cons.prems have "x = Inl err" "st1 = st0" by simp_all
    with e Inl show ?thesis by (intro exI [of _ "[]"]) simp
  next
    case (Inr u)
    with y Cons.prems have "record_results E C st0 rs = (x, st1)" by simp
    from Cons.IH [OF this] obtain ds where
      d: "log (ws st1) = log (ws st0) @ map LedgerSaved ds"
         "prefix ds (ledger_seq (tracker st0) rs)" "bar (ws st1) = bar (ws st0)"
         "x = Inr () \<longrightarrow> ds = ledger_seq (tracker st0) rs
            \<and> tracker st1 = foldl mark (tracker st0) rs \<and> results st1 = results st0 @ rs"
      by blast
    from e Inr d show ?thesis by (intro exI [of _ "mark (tracker st) r # ds"]) simp
  qed
qed

lemma process_batch_log:
  assumes c: "length b \<le> c" and p: "process_batch E C sched b st = (x, st1)"
  shows "\<exists>W rs ds. log (ws st1) = log (ws st) @ W @ map LedgerSaved ds
      \<and> invoked W = b \<and> saves W = [] \<and> length (settled W) = length b
      \<and> flight c (0, 0) W = Some (0, 0)
      \<and> map transID rs = b \<and> prefix ds (ledger_seq (tracker st) rs)
      \<and> (x = Inr () \<longrightarrow> ds = ledger_seq (tracker st) rs
            \<and> tracker st1 = foldl mark (tracker st) rs \<and> results st1 = results st @ rs)"
proof -
  obtain rs s1 where w: "run_workers E C sched b (ws st) = (rs, s1)"
    by (cases "run_workers E C sched b (ws st)")
  from run_workers_flight [OF c w] obtain W where
    f: "log s1 = log (ws st) @ W" "invoked W = b" "saves W = []" "flight c (0, 0) W = Some (0, 0)"
    by blast
  from flight_counts [OF f(4)] f(2) have n: "length (settled W) = length b" by simp
  from p w have "record_results E C (st\<lparr>ws := s1\<rparr>) rs = (x, st1)" by (simp add: process_batch_def)
  from record_results_effect [OF this] obtain ds where
    d: "log (ws st1) = log s1 @ map LedgerSaved ds" "prefix ds (ledger_seq (tracker st) rs)"
       "x = Inr () \<longrightarrow> ds = ledger_seq (tracker st) rs
            \<and> tracker st1 = foldl mark (tracker st) rs \<and> results st1 = results st @ rs"
    by auto
  from f n d run_workers_transID [OF w] show ?thesis
    by (intro exI [of _ W] exI [of _ rs] exI [of _ ds]) simp
qed

lemma chop_Nil [simp]: "chop c [] = []"
  by (simp add: chop.simps)

lemma concat_chop: "0 < c \<Longrightarrow> concat (chop c xs) = xs"
proof (induction c xs rule: chop.induct)
  case (1 c xs)
  then show ?case by (subst chop.simps) auto
qed

lemma chop_bound: "b \<in> set (chop c xs) \<Longrightarrow> b \<noteq> [] \<and> length b \<le> c"
proof (induction c xs rule: chop.induct)
  case (1 c xs)
  show ?case
  proof (cases "c = 0 \<or> xs = []")
    case True
    with 1(2) show ?thesis by (simp add: chop.simps [of c xs])
  next
    case False
    with 1(2) have "b = take c xs \<or> b \<in> set (chop c (drop c xs))"
      by (simp add: chop.simps [of c xs])
    with 1(1) False show ?thesis by auto
  qed
qed

lemma batch_loop_chop:
  "0 < concurrentDownloads C \<Longrightarrow>
   batch_loop E C order ids i st
     = Some (run_batches E C order i (chop (concurrentDownloads C) (drop i ids)) st)"
proof (induction "length ids - i" arbitrary: i st rule: less_induct)
  case less
  let ?c = "concurrentDownloads C"
  show ?case
  proof (cases "i < length ids")
    case False
    then show ?thesis
      by (simp add: batch_loop.simps [of E C order ids i st] chop.simps [of ?c "drop i ids"])
  next
    case True
    have sl: "slice ids i (i + ?c) = take ?c (drop i ids)" by (simp add: slice_def)
    have ch: "chop ?c (drop i ids) = take ?c (drop i ids) # chop ?c (drop (i + ?c) ids)"
      using True less.prems by (simp add: chop.simps [of ?c "drop i ids"] add.commute)
    show ?thesis
    proof (cases "process_batch E C (order i) (take ?c (drop i ids)) st")
      case (Pair r st1)
      show ?thesis
      proof (cases r)
        case (Inl e)
        with Pair True show ?thesis
          by (simp add: batch_loop.simps [of E C order ids i st] sl ch)
      next
        case (Inr u)
        have "length ids - (i + ?c) < length ids - i" using True less.prems by simp
        from less.hyps [OF this less.prems, of st1] Inr Pair True show ?thesis
          by (simp add: batch_loop.simps [of E C order ids i st] sl ch)
      qed
    qed
  qed
qed

lemma flight_bounded:
  "flight c (n, m) evs = Some (n', m') \<Longrightarrow> n \<le> c \<Longrightarrow> m \<le> c \<Longrightarrow> n' \<le> c \<and> m' \<le> c"
proof (induction evs arbitrary: n m)
  case Nil
  then show ?case by simp
next
  case (Cons ev evs)
  show ?case
  proof (cases ev)
    case (Sleep x)
    with Cons show ?thesis by simp
  next
    case (HttpGet x)
    with Cons.prems Cons.IH [of n "m + 1"] show ?thesis by (simp split: if_splits)
  next
    case (Response x)
    with Cons.prems Cons.IH [of n "m - 1"] show ?thesis by (simp split: if_splits)
  next
    case (WorkerInvoked x)
    with Cons.prems Cons.IH [of "n + 1" m] show ?thesis by (simp split: if_splits)
  next
    case (WorkerSettled x)
    with Cons.prems Cons.IH [of "n - 1" m] show ?thesis by (simp split: if_splits)
  next
    case (LedgerSaved x)
    with Cons show ?thesis by simp
  qed
qed

lemma flight_at_any_time:
  assumes "flight c (0, 0) evs = Some nm"
  shows "\<exists>n m. flight c (0, 0) (take k evs) = Some (n, m) \<and> n \<le> c \<and> m \<le> c"
proof -
  from assms flight_append [of c "(0, 0)" "take k evs" "drop k evs"]
  obtain n m where f: "flight c (0, 0) (take k evs) = Some (n, m)"
    by (cases "flight c (0, 0) (take k evs)") auto
  from flight_bounded [OF f] f show ?thesis by simp
qed

lemma run_batches_log:
  "\<forall>b \<in> set bs. length b \<le> c \<Longrightarrow> run_batches E C order i bs st = (x, st1) \<Longrightarrow>
   \<exists>evs. log (ws st1) = log (ws st) @ evs \<and> flight c (0, 0) evs = Some (0, 0)
      \<and> prefix (invoked evs) (concat bs)
      \<and> (x = Inr () \<longrightarrow> invoked evs = concat bs
            \<and> (\<exists>rs. results st1 = results st @ rs \<and> map transID rs = concat bs
                  \<and> tracker st1 = foldl mark (tracker st) rs))"
proof (induction bs arbitrary: i st)
  case Nil
  then show ?case by (intro exI [of _ "[]"]) simp
next
  case (Cons b bs)
  obtain y st0 where y: "process_batch E C (order i) b st = (y, st0)"
    by (cases "process_batch E C (order i) b st")
  from Cons.prems(1) have bc: "length b \<le> c" and rest: "\<forall>b \<in> set bs. length b \<le> c" by simp_all
  from process_batch_log [OF bc y] obtain W rs ds where
    p: "log (ws st0) = log (ws st) @ W @ map LedgerSaved ds" "invoked W = b"
       "flight c (0, 0) W = Some (0, 0)" "map transID rs = b"
       "y = Inr () \<longrightarrow> ds = ledger_seq (tracker st) rs
            \<and> tracker st0 = foldl mark (tracker st) rs \<and> results st0 = results st @ rs"
    by blast
  have fl: "flight c (0, 0) (W @ map LedgerSaved ds) = Some (0, 0)"
    by (simp add: flight_append p(3))
  show ?case
  proof (cases y)
    case (Inl e)
    with y Cons.prems(2) have "x = Inl e" "st1 = st0" by simp_all
    with p fl show ?thesis by (intro exI [of _ "W @ map LedgerSaved ds"]) simp
  next
    case (Inr u)
    with y Cons.prems(2) have "run_batches E C order (i + concurrentDownloads C) bs st0 = (x, st1)"
      by simp
    from Cons.IH [OF rest this] obtain evs where
      r: "log (ws st1) = log (ws st0) @ evs" "flight c (0, 0) evs = Some (0, 0)"
         "prefix (invoked evs) (concat bs)"
         "x = Inr () \<longrightarrow> invoked evs = concat bs
            \<and> (\<exists>rs. results st1 = results st0 @ rs \<and> map transID rs = concat bs
                  \<and> tracker st1 = foldl mark (tracker st0) rs)"
      by blast
    let ?evs = "(W @ map LedgerSaved ds) @ evs"
    have 1: "log (ws st1) = log (ws st) @ ?evs" using p(1) r(1) by simp
    have 2: "flight c (0, 0) ?evs = Some (0, 0)"
      using fl r(2) flight_append [of c "(0, 0)" "W @ map LedgerSaved ds" evs] by simp
    have 3: "prefix (invoked ?evs) (concat (b # bs))" using p(2) r(3) by simp
    have 4: "x = Inr () \<longrightarrow> invoked ?evs = concat (b # bs)
            \<and> (\<exists>rs. results st1 = results st @ rs \<and> map transID rs = concat (b # bs)
                  \<and> tracker st1 = foldl mark (tracker st) rs)"
    proof
      assume "x = Inr ()"
      with r(4) obtain rs2 where
        q: "invoked evs = concat bs" "results st1 = results st0 @ rs2" "map transID rs2 = concat bs"
           "tracker st1 = foldl mark (tracker st0) rs2"
        by blast
      from Inr p(5) have q0: "tracker st0 = foldl mark (tracker st) rs" "results st0 = results st @ rs"
        by simp_all
      have "results st1 = results st @ (rs @ rs2) \<and> map transID (rs @ rs2) = concat (b # bs)
                  \<and> tracker st1 = foldl mark (tracker st) (rs @ rs2)"
        using q q0 p(4) by simp
      with q(1) p(2) show "invoked ?evs = concat (b # bs)
            \<and> (\<exists>rs. results st1 = results st @ rs \<and> map transID rs = concat (b # bs)
                  \<and> tracker st1 = foldl mark (tracker st) rs)"
        by (intro conjI exI [of _ "rs @ rs2"]) simp_all
    qed
    from 1 2 3 4 show ?thesis by blast
  qed
qed

lemma processDownloads_log:
  assumes c: "0 < concurrentDownloads C"
  shows "\<exists>x st1 evs. processDownloads E C order ids st = Some (x, st1)
      \<and> log (ws st1) = log (ws st) @ evs
      \<and> flight (concurrentDownloads C) (0, 0) evs = Some (0, 0)
      \<and> prefix (invoked evs) ids
      \<and> (\<forall>rs. x = Inr rs \<longrightarrow> invoked evs = ids \<and> map transID rs = ids
             \<and> tracker st1 = foldl mark (tracker st) rs)"
proof -
  let ?c = "concurrentDownloads C"
  let ?st = "st\<lparr>results := [], ws := (ws st)\<lparr>bar := 0\<rparr>\<rparr>"
  obtain y st1 where y: "run_batches E C order 0 (chop ?c ids) ?st = (y, st1)"
    by (cases "run_batches E C order 0 (chop ?c ids) ?st")
  have bd: "\<forall>b \<in> set (chop ?c ids). length b \<le> ?c" using chop_bound by blast
  from run_batches_log [OF bd y] obtain evs where
    r: "log (ws st1) = log (ws ?st) @ evs" "flight ?c (0, 0) evs = Some (0, 0)"
       "prefix (invoked evs) (concat (chop ?c ids))"
       "y = Inr () \<longrightarrow> invoked evs = concat (chop ?c ids)
            \<and> (\<exists>rs. results st1 = results ?st @ rs \<and> map transID rs = concat (chop ?c ids)
                  \<and> tracker st1 = foldl mark (tracker ?st) rs)"
    by blast
  have l: "batch_loop E C order ids 0 ?st = Some (y, st1)"
    using batch_loop_chop [OF c, of E order ids 0 ?st] y by simp
  note cc = concat_chop [OF c, of ids]
  show ?thesis
  proof (cases y)
    case (Inl e)
    with l have "processDownloads E C order ids st = Some (Inl e, st1)"
      by (simp add: processDownloads_def)
    with r cc show ?thesis by (intro exI [of _ "Inl e"] exI [of _ st1] exI [of _ evs]) simp
  next
    case (Inr u)
    with l have "processDownloads E C order ids st = Some (Inr (results st1), st1)"
      by (simp add: processDownloads_def)
    with r cc Inr show ?thesis
      by (intro exI [of _ "Inr (results st1)"] exI [of _ st1] exI [of _ evs]) auto
  qed
qed

text \<open>
  C8: for every pending ID sequence and every \<^verbatim>\<open>concurrentDownloads\<close> the code receives
  (the speed settings give 1, 3 or 5; with a step of 0 the loop would add 0 to its index
  for ever), and for every order in which the timers and requests of the workers
  complete: the loop returns and is the processing, one after the other, of the
  consecutive batches of the sequence; the batches are not empty, have at most
  \<^verbatim>\<open>concurrentDownloads\<close> items and together are the sequence. A turn of the loop
  invokes the workers of its batch, and when it ends as many workers have settled as
  were invoked and no worker and no request is in flight, so the next batch starts after
  every worker of this one has settled. Along the log of the whole run the IDs are
  invoked in order, and at any time the number of workers invoked and not yet settled
  and the number of requests made and not yet answered are at most
  \<^verbatim>\<open>concurrentDownloads\<close>; at the end both are 0.
\<close>

theorem C8_bounded_batches:
  assumes "0 < concurrentDownloads C"
  shows "batch_loop E C order ids 0 st
           = Some (run_batches E C order 0 (chop (concurrentDownloads C) ids) st)
       \<and> concat (chop (concurrentDownloads C) ids) = ids
       \<and> (\<forall>b \<in> set (chop (concurrentDownloads C) ids). b \<noteq> [] \<and> length b \<le> concurrentDownloads C)
       \<and> (\<forall>sched b st0. length b \<le> concurrentDownloads C \<longrightarrow>
             (\<exists>x st1 evs. process_batch E C sched b st0 = (x, st1)
                \<and> log (ws st1) = log (ws st0) @ evs
                \<and> invoked evs = b \<and> length (settled evs) = length b
                \<and> flight (concurrentDownloads C) (0, 0) evs = Some (0, 0)))
       \<and> (\<exists>x st1 evs. processDownloads E C order ids st = Some (x, st1)
             \<and> log (ws st1) = log (ws st) @ evs
             \<and> prefix (invoked evs) ids
             \<and> (\<forall>rs. x = Inr rs \<longrightarrow> invoked evs = ids \<and> map transID rs = ids)
             \<and> flight (concurrentDownloads C) (0, 0) evs = Some (0, 0)
             \<and> (\<forall>k. \<exists>n m. flight (concurrentDownloads C) (0, 0) (take k evs) = Some (n, m)
                    \<and> n \<le> concurrentDownloads C \<and> m \<le> concurrentDownloads C))"
proof (intro conjI)
  let ?c = "concurrentDownloads C"
  show "batch_loop E C order ids 0 st = Some (run_batches E C order 0 (chop ?c ids) st)"
    using batch_loop_chop [OF assms, of E order ids 0 st] by simp
  show "concat (chop ?c ids) = ids" using assms by (rule concat_chop)
  show "\<forall>b \<in> set (chop ?c ids). b \<noteq> [] \<and> length b \<le> ?c"
    using chop_bound by blast
  show "\<forall>sched b st0. length b \<le> ?c \<longrightarrow>
             (\<exists>x st1 evs. process_batch E C sched b st0 = (x, st1)
                \<and> log (ws st1) = log (ws st0) @ evs
                \<and> invoked evs = b \<and> length (settled evs) = length b
                \<and> flight ?c (0, 0) evs = Some (0, 0))"
  proof (intro allI impI)
    fix sched and b :: "string list" and st0 :: "'a rstate"
    assume b: "length b \<le> ?c"
    obtain x st1 where p: "process_batch E C sched b st0 = (x, st1)"
      by (cases "process_batch E C sched b st0")
    from process_batch_log [OF b p] obtain W ds where
      w: "log (ws st1) = log (ws st0) @ W @ map LedgerSaved ds" "invoked W = b"
         "length (settled W) = length b" "flight ?c (0, 0) W = Some (0, 0)"
      by blast
    let ?evs = "W @ map LedgerSaved ds"
    have "flight ?c (0, 0) ?evs = Some (0, 0)" by (simp add: flight_append w(4))
    with w p show "\<exists>x st1 evs. process_batch E C sched b st0 = (x, st1)
                \<and> log (ws st1) = log (ws st0) @ evs
                \<and> invoked evs = b \<and> length (settled evs) = length b
                \<and> flight ?c (0, 0) evs = Some (0, 0)"
      by (intro exI [of _ x] exI [of _ st1] exI [of _ ?evs]) simp
  qed
  from processDownloads_log [OF assms, of E order ids st] obtain x st1 evs where
    r: "processDownloads E C order ids st = Some (x, st1)" "log (ws st1) = log (ws st) @ evs"
       "flight ?c (0, 0) evs = Some (0, 0)" "prefix (invoked evs) ids"
       "\<forall>rs. x = Inr rs \<longrightarrow> invoked evs = ids \<and> map transID rs = ids
             \<and> tracker st1 = foldl mark (tracker st) rs"
    by blast
  have t: "\<forall>k. \<exists>n m. flight ?c (0, 0) (take k evs) = Some (n, m) \<and> n \<le> ?c \<and> m \<le> ?c"
    using flight_at_any_time [OF r(3)] by blast
  from r t show "\<exists>x st1 evs. processDownloads E C order ids st = Some (x, st1)
             \<and> log (ws st1) = log (ws st) @ evs
             \<and> prefix (invoked evs) ids
             \<and> (\<forall>rs. x = Inr rs \<longrightarrow> invoked evs = ids \<and> map transID rs = ids)
             \<and> flight ?c (0, 0) evs = Some (0, 0)
             \<and> (\<forall>k. \<exists>n m. flight ?c (0, 0) (take k evs) = Some (n, m) \<and> n \<le> ?c \<and> m \<le> ?c)"
    by (intro exI [of _ x] exI [of _ st1] exI [of _ evs]) simp
qed

theorem C8_bounded_batches_witness:
  "0 < concurrentDownloads sample_config
   \<and> chop (concurrentDownloads sample_config) [''1'', ''2'', ''3'', ''4'', ''5'']
       = [[''1'', ''2'', ''3''], [''4'', ''5'']]
   \<and> batch_loop steady_site sample_config alternating [''1'', ''2'', ''3'', ''4'', ''5''] 0 fresh_rstate
       = Some (run_batches steady_site sample_config alternating 0
                 [[''1'', ''2'', ''3''], [''4'', ''5'']] fresh_rstate)
   \<and> length [''1'', ''2''] \<le> concurrentDownloads sample_config
   \<and> flight (concurrentDownloads sample_config) (0, 0)
        (log (ws (snd (process_batch steady_site sample_config (alternating 0) [''1'', ''2'']
           fresh_rstate))))
       = Some (0, 0)
   \<and> flight (concurrentDownloads sample_config) (0, 0)
        (take 6 (log (ws (snd (process_batch steady_site sample_config (alternating 0)
           [''1'', ''2''] fresh_rstate)))))
       = Some (2, 2)"
proof -
  have h: "0 < concurrentDownloads sample_config" by (simp add: sample_config_def)
  have c: "chop (concurrentDownloads sample_config) [''1'', ''2'', ''3'', ''4'', ''5'']
       = [[''1'', ''2'', ''3''], [''4'', ''5'']]"
    by (simp add: sample_config_def chop.simps)
  have l: "length [''1'', ''2''] \<le> concurrentDownloads sample_config"
    by (simp add: sample_config_def)
  note t = C8_bounded_batches [OF h, of steady_site alternating "[''1'', ''2'', ''3'', ''4'', ''5'']"
      fresh_rstate]
  from t c have a: "batch_loop steady_site sample_config alternating
         [''1'', ''2'', ''3'', ''4'', ''5''] 0 fresh_rstate
       = Some (run_batches steady_site sample_config alternating 0
                 [[''1'', ''2'', ''3''], [''4'', ''5'']] fresh_rstate)"
    by simp
  from t have "\<forall>sched b st0. length b \<le> concurrentDownloads sample_config \<longrightarrow>
             (\<exists>x st1 evs. process_batch steady_site sample_config sched b st0 = (x, st1)
                \<and> log (ws st1) = log (ws st0) @ evs
                \<and> invoked evs = b \<and> length (settled evs) = length b
                \<and> flight (concurrentDownloads sample_config) (0, 0) evs = Some (0, 0))"
    by (elim conjE)
  from this [rule_format, OF l, of "alternating 0" fresh_rstate]
  have b: "flight (concurrentDownloads sample_config) (0, 0)
        (log (ws (snd (process_batch steady_site sample_config (alternating 0) [''1'', ''2'']
           fresh_rstate))))
       = Some (0, 0)"
    by (auto simp: fresh_rstate_def fresh_wstate_def)
  have d: "flight (concurrentDownloads sample_config) (0, 0)
        (take 6 (log (ws (snd (process_batch steady_site sample_config (alternating 0)
           [''1'', ''2''] fresh_rstate)))))
       = Some (2, 2)"
    by code_simp
  from h c a l b d show ?thesis by (intro conjI)
qed









section \<open>Loading the progress file\<close>

text \<open>
  On a ledger state of the right shape the reading of the loaded value is the
  \<^verbatim>\<open>isCompleted\<close> of the ledger section, and the empty state is the empty ledger.
\<close>

lemma some_transID_outcomes:
  "some_transID (map outcome_json rs) t = Inr (list_ex (\<lambda>item. transID item = t) rs)"
proof (induction rs)
  case Nil
  show ?case by simp
next
  case (Cons r rs)
  then show ?case by (cases r) simp_all
qed

lemma isCompleted_loaded_progress:
  "isCompleted_loaded (progress_json d) t = Inr (isCompleted d t)"
  by (simp add: isCompleted_loaded_def progress_json_def isCompleted_def some_transID_outcomes)

lemma empty_state_progress: "empty_state = progress_json empty_progress"
  by (simp add: empty_state_def progress_json_def empty_progress_def)

text \<open>
  A progress file that is absent, cannot be read or does not parse gives the empty
  state, for every parser.
\<close>

lemma load_absent_unparsable:
  "load P Absent = empty_state \<and> load P Unreadable = empty_state
   \<and> (P text = None \<longrightarrow> load P (Content text) = empty_state)"
  by (simp add: load_def)

text \<open>
  C6, at the failing input: a progress file with the text \<^verbatim>\<open>{}\<close> parses, so the
  tracker is constructed with the object without keys as its state, which is not the
  empty state; the first \<^verbatim>\<open>isCompleted\<close> of \<^verbatim>\<open>setPending\<close> then throws a
  \<^verbatim>\<open>TypeError\<close>, which the \<^verbatim>\<open>catch\<close> of \<^verbatim>\<open>main\<close> turns into \<^verbatim>\<open>process.exit(1)\<close>.
\<close>

theorem C6_wrong_shape_is_fatal:
  "load parse_braces (Content ''{}'') = JObj []
   \<and> load parse_braces (Content ''{}'') \<noteq> empty_state
   \<and> filter_pending (load parse_braces (Content ''{}'')) [''1'']
       = Inl (TypeError ''Cannot read properties of undefined (reading 'some')'')"
  by (simp add: load_def parse_braces_def empty_state_def isCompleted_loaded_def)

end
